theory Spec2Isabelle
  imports Main "HOL-Library.Word"
begin

unbundle bit_operations_syntax

section \<open>Canonical feature names (libvmaf, feature/feature_name.c)\<close>

text \<open>
  The file builds the name under which a feature extractor publishes a score: the base
  name, followed by every option that deviates from its default. The theory embeds the
  functions of the file, in the order of the file, and the C library calls they make on
  character buffers. Pointers that may be NULL are options; what a function does to
  memory it returns next to its result.
\<close>

subsection \<open>Machine types\<close>

text \<open>\<^verbatim>\<open>size_t\<close> has 64 bits, \<^verbatim>\<open>int\<close> 32.\<close>

type_synonym size_t = "64 word"

type_synonym c_int = "32 word"

text \<open>A \<^verbatim>\<open>double\<close> is its IEEE-754 binary64 bit pattern.\<close>

type_synonym double = "64 word"

definition is_nan :: "double \<Rightarrow> bool" where
  "is_nan x = (0x7FF0000000000000 < (x AND 0x7FFFFFFFFFFFFFFF))"

definition is_zero :: "double \<Rightarrow> bool" where
  "is_zero x = (x AND 0x7FFFFFFFFFFFFFFF = 0)"

text \<open>The operator \<^verbatim>\<open>==\<close> on doubles: a NaN equals nothing, the two zeros are equal.\<close>

definition double_eq :: "double \<Rightarrow> double \<Rightarrow> bool" where
  "double_eq x y = (\<not> is_nan x \<and> \<not> is_nan y \<and> (x = y \<or> (is_zero x \<and> is_zero y)))"

text \<open>\<^verbatim>\<open>errno.h\<close>.\<close>

definition EINVAL :: int where
  "EINVAL = 22"

definition ENOMEM :: int where
  "ENOMEM = 12"

subsection \<open>Character buffers and the C library\<close>

text \<open>
  A buffer is the list of its bytes; a C string inside it ends at the first NUL. A write
  that would pass the end of the buffer is a fault (undefined behaviour in C).
\<close>

type_synonym buffer = "char list"

datatype fault = Out_of_bounds

definition NUL :: char where
  "NUL = CHR 0x00"

definition c_string :: "string \<Rightarrow> bool" where
  "c_string s = (NUL \<notin> set s)"

text \<open>The string a buffer holds: its bytes before the first NUL.\<close>

definition cstr_of :: "buffer \<Rightarrow> string" where
  "cstr_of buf = takeWhile (\<lambda>c. c \<noteq> NUL) buf"

text \<open>Writing the bytes \<open>bs\<close> at offset \<open>off\<close>.\<close>

definition store :: "buffer \<Rightarrow> nat \<Rightarrow> char list \<Rightarrow> fault + buffer" where
  "store buf off bs =
     (if off + length bs \<le> length buf
      then Inr (take off buf @ bs @ drop (off + length bs) buf)
      else Inl Out_of_bounds)"

definition memset :: "buffer \<Rightarrow> char \<Rightarrow> nat \<Rightarrow> fault + buffer" where
  "memset buf c n = store buf 0 (replicate n c)"

definition strnlen :: "buffer \<Rightarrow> nat \<Rightarrow> nat" where
  "strnlen buf n = length (cstr_of (take n buf))"

text \<open>
  \<^verbatim>\<open>snprintf(buf + off, n, fmt, ...)\<close>, where \<open>s\<close> is the text the format and its
  arguments produce: at most \<open>n - 1\<close> characters and a terminator are written, nothing
  when \<open>n\<close> is 0.
\<close>

definition snprintf :: "buffer \<Rightarrow> nat \<Rightarrow> nat \<Rightarrow> string \<Rightarrow> fault + buffer" where
  "snprintf buf off n s = (if n = 0 then Inr buf else store buf off (take (n - 1) s @ [NUL]))"

text \<open>
  \<^verbatim>\<open>strncpy(dst, src, n)\<close> into a fresh block of \<open>n\<close> bytes: the characters of the
  string at \<open>src\<close>, at most \<open>n\<close> of them, then NULs up to \<open>n\<close> bytes.
\<close>

definition strncpy :: "buffer \<Rightarrow> nat \<Rightarrow> buffer" where
  "strncpy src n = take n (cstr_of src) @ replicate (n - length (cstr_of src)) NUL"

text \<open>The conversion \<^verbatim>\<open>%d\<close>: the decimal digits, after a minus sign for a negative value.\<close>

fun dec :: "nat \<Rightarrow> string" where
  "dec n = (if n < 10 then [''0123456789'' ! n] else dec (n div 10) @ [''0123456789'' ! (n mod 10)])"

declare dec.simps [simp del]

definition printf_d :: "int \<Rightarrow> string" where
  "printf_d i = (if i < 0 then CHR ''-'' # dec (nat (- i)) else dec (nat i))"

subsection \<open>The heap\<close>

text \<open>
  Allocation can fail. The heap holds the outcomes of the requests to come, in order
  (a request past the end of the list succeeds), and counts the objects that are
  allocated and not yet freed: strings from \<^verbatim>\<open>malloc\<close> and dictionaries.
\<close>

record heap =
  alloc_outcomes :: "bool list"
  live_objects :: nat

definition next_outcome :: "heap \<Rightarrow> bool \<times> heap" where
  "next_outcome h =
     (case alloc_outcomes h of
        [] \<Rightarrow> (True, h)
      | ok # rest \<Rightarrow> (ok, h\<lparr>alloc_outcomes := rest\<rparr>))"

definition malloc :: "heap \<Rightarrow> bool \<times> heap" where
  "malloc h =
     (case next_outcome h of
        (ok, h') \<Rightarrow> (ok, if ok then h'\<lparr>live_objects := live_objects h' + 1\<rparr> else h'))"

definition free :: "heap \<Rightarrow> heap" where
  "free h = h\<lparr>live_objects := live_objects h - 1\<rparr>"

subsection \<open>Collaborators declared outside the file\<close>

text \<open>
  \<^verbatim>\<open>alias.h\<close>, \<^verbatim>\<open>feature_name.h\<close> and the C library's \<^verbatim>\<open>%g\<close> are not part of the
  file; the functions below take them as a parameter.
\<close>

record extern =
  vmaf_feature_name_alias :: "string \<Rightarrow> string"
  printf_g :: "double \<Rightarrow> string"
  VMAF_FEATURE_NAME_DEFAULT_BUFFER_SIZE :: nat

text \<open>
  \<^verbatim>\<open>opt.h\<close>: an option descriptor. The union \<^verbatim>\<open>default_val\<close> and the memory at
  \<^verbatim>\<open>obj + offset\<close> are read through the member or pointer type the code names, so both
  are the three readings. Of \<^verbatim>\<open>flags\<close> the file tests one bit,
  \<^verbatim>\<open>VMAF_OPT_FLAG_FEATURE_PARAM\<close>; the field holds the outcome of that test.
\<close>

datatype VmafOptionType =
  VMAF_OPT_TYPE_BOOL | VMAF_OPT_TYPE_INT | VMAF_OPT_TYPE_DOUBLE | VMAF_OPT_TYPE_OTHER

record view =
  as_bool :: bool
  as_int :: c_int
  as_double :: double

record VmafOption =
  opt_name :: "string option"
  opt_alias :: "string option"
  opt_type :: VmafOptionType
  opt_default_val :: view
  opt_offset :: nat
  opt_flag_feature_param :: bool

text \<open>
  An array of descriptors ends with one whose name is NULL. The list holds the
  descriptors of the array; the end of the list stands for that last descriptor. The
  same holds for an array of names that ends with NULL.
\<close>

text \<open>
  \<^verbatim>\<open>dict.h\<close>: a dictionary is its array \<^verbatim>\<open>entry\<close> of pairs \<^verbatim>\<open>key\<close>, \<^verbatim>\<open>val\<close>, and
  \<^verbatim>\<open>cnt\<close> is the length of the array.
\<close>

type_synonym VmafDictionary = "(string \<times> string) list"

fun dict_put :: "string \<Rightarrow> string \<Rightarrow> VmafDictionary \<Rightarrow> VmafDictionary" where
  "dict_put k v [] = [(k, v)]"
| "dict_put k v (e # es) = (if fst e = k then (k, v) # es else e # dict_put k v es)"

text \<open>
  Modelled from the spec: \<^verbatim>\<open>vmaf_dictionary_set\<close> of \<^verbatim>\<open>dict.h\<close>, whose code is not
  in the file. The store is an ordered collection of pairs with unique keys, exposing
  \<open>set(key, value) -> ok | error\<close>; an insertion can fail on allocation exhaustion.
  The first insertion creates the dictionary. A key already present keeps its place
  and takes the new value. Each call uses up one allocation outcome; a failed call
  returns a non-zero code and leaves the dictionary as it was.
\<close>

definition vmaf_dictionary_set ::
  "VmafDictionary option \<Rightarrow> string \<Rightarrow> string \<Rightarrow> heap \<Rightarrow> int \<times> VmafDictionary option \<times> heap" where
  "vmaf_dictionary_set dict k v h =
     (case next_outcome h of
        (ok, h') \<Rightarrow>
          if \<not> ok then (- ENOMEM, dict, h')
          else (case dict of
                  None \<Rightarrow> (0, Some [(k, v)], h'\<lparr>live_objects := live_objects h' + 1\<rparr>)
                | Some d \<Rightarrow> (0, Some (dict_put k v d), h')))"

text \<open>
  Modelled from the spec: \<^verbatim>\<open>vmaf_dictionary_free\<close> of \<^verbatim>\<open>dict.h\<close>, the store's
  \<open>release()\<close>. It frees the dictionary, if there is one, and clears the pointer.
\<close>

definition vmaf_dictionary_free :: "VmafDictionary option \<Rightarrow> heap \<Rightarrow> VmafDictionary option \<times> heap" where
  "vmaf_dictionary_free dict h = (case dict of None \<Rightarrow> (None, h) | Some d \<Rightarrow> (None, free h))"

subsection \<open>The alias table and the single-key formatter\<close>

text \<open>\<^verbatim>\<open>alias_list\<close> and \<^verbatim>\<open>key_alias\<close>, lines 35 to 66.\<close>

definition alias_list :: "(string \<times> string) list" where
  "alias_list =
     [(''motion_force_zero'', ''force''),
      (''adm_enhn_gain_limit'', ''egl''),
      (''vif_enhn_gain_limit'', ''egl''),
      (''adm_norm_view_dist'', ''nvd''),
      (''adm_ref_display_height'', ''rdh'')]"

fun key_alias_scan :: "(string \<times> string) list \<Rightarrow> string \<Rightarrow> string option" where
  "key_alias_scan [] k = None"
| "key_alias_scan (a # rest) k = (if k = fst a then Some (snd a) else key_alias_scan rest k)"

definition key_alias :: "string \<Rightarrow> string option" where
  "key_alias k = key_alias_scan alias_list k"

text \<open>
  \<^verbatim>\<open>vmaf_feature_name\<close>, lines 69 to 79. The function returns one of two pointers it was
  given; \<open>buf\<close> is the memory at the second, all of it, and \<open>buf_sz\<close> the size the
  caller passes.
\<close>

datatype returned = Returned_name | Returned_buf

definition vmaf_feature_name ::
  "extern \<Rightarrow> string \<Rightarrow> string option \<Rightarrow> double \<Rightarrow> buffer \<Rightarrow> size_t \<Rightarrow> fault + (returned \<times> buffer)" where
  "vmaf_feature_name X name key val buf buf_sz =
     (case key of
        None \<Rightarrow> Inr (Returned_name, buf)
      | Some k \<Rightarrow>
          (case key_alias k of
             None \<Rightarrow> Inr (Returned_name, buf)
           | Some a \<Rightarrow>
               (case memset buf NUL (unat buf_sz) of
                  Inl f \<Rightarrow> Inl f
                | Inr buf1 \<Rightarrow>
                    (case snprintf buf1 0 (unat (buf_sz - 1))
                            (vmaf_feature_name_alias X name @ ''_'' @ a @ ''_'' @ printf_g X val) of
                       Inl f \<Rightarrow> Inl f
                     | Inr buf2 \<Rightarrow> Inr (Returned_buf, buf2)))))"

subsection \<open>The composer\<close>

text \<open>
  \<^verbatim>\<open>snprintfcat\<close>, lines 81 to 90. The value it returns is used by no caller and is
  left out.
\<close>

definition snprintfcat :: "buffer \<Rightarrow> nat \<Rightarrow> string \<Rightarrow> fault + buffer" where
  "snprintfcat buf buf_sz s =
     (let len = strnlen buf buf_sz in snprintf buf len (buf_sz - len) s)"

text \<open>The loop over the entries of the dictionary, for one descriptor (lines 106 to 112).\<close>

fun append_entries ::
  "nat \<Rightarrow> VmafOption \<Rightarrow> string \<Rightarrow> (string \<times> string) list \<Rightarrow> buffer \<Rightarrow> fault + buffer" where
  "append_entries buf_sz opt oname [] buf = Inr buf"
| "append_entries buf_sz opt oname (e # es) buf =
     (if oname \<noteq> fst e then append_entries buf_sz opt oname es buf
      else if \<not> opt_flag_feature_param opt then append_entries buf_sz opt oname es buf
      else (case snprintfcat buf buf_sz
                   (''_'' @ (case opt_alias opt of Some a \<Rightarrow> a | None \<Rightarrow> oname) @ ''_'' @ snd e) of
              Inl f \<Rightarrow> Inl f
            | Inr buf' \<Rightarrow> append_entries buf_sz opt oname es buf'))"

text \<open>The loop over the descriptors (lines 104 to 113).\<close>

fun append_opts :: "nat \<Rightarrow> VmafOption list \<Rightarrow> VmafDictionary \<Rightarrow> buffer \<Rightarrow> fault + buffer" where
  "append_opts buf_sz [] d buf = Inr buf"
| "append_opts buf_sz (opt # opts) d buf =
     (case opt_name opt of
        None \<Rightarrow> Inr buf
      | Some oname \<Rightarrow>
          (case append_entries buf_sz opt oname d buf of
             Inl f \<Rightarrow> Inl f
           | Inr buf' \<Rightarrow> append_opts buf_sz opts d buf'))"

text \<open>
  \<^verbatim>\<open>vmaf_feature_name_from_opts_dict\<close>, lines 92 to 121. The result is the block that
  \<^verbatim>\<open>malloc\<close> returned, filled by \<^verbatim>\<open>strncpy\<close>, or NULL.
\<close>

definition vmaf_feature_name_from_opts_dict ::
  "extern \<Rightarrow> string \<Rightarrow> VmafOption list option \<Rightarrow> VmafDictionary option \<Rightarrow> heap
     \<Rightarrow> fault + (buffer option \<times> heap)" where
  "vmaf_feature_name_from_opts_dict X name opts opts_dict h =
     (let buf_sz = VMAF_FEATURE_NAME_DEFAULT_BUFFER_SIZE X;
          buf = replicate (buf_sz + 1) NUL;
          filled =
            (case opts of
               None \<Rightarrow> snprintfcat buf buf_sz name
             | Some os \<Rightarrow>
                 (case opts_dict of
                    None \<Rightarrow> snprintfcat buf buf_sz name
                  | Some d \<Rightarrow>
                      (case snprintfcat buf buf_sz (vmaf_feature_name_alias X name) of
                         Inl f \<Rightarrow> Inl f
                       | Inr buf1 \<Rightarrow> append_opts buf_sz os d buf1)))
      in case filled of
           Inl f \<Rightarrow> Inl f
         | Inr buf2 \<Rightarrow>
             (let dst_sz = strnlen buf2 buf_sz + 1 in
              case malloc h of
                (ok, h') \<Rightarrow> if \<not> ok then Inr (None, h') else Inr (Some (strncpy buf2 dst_sz), h')))"

subsection \<open>The introspector\<close>

text \<open>\<^verbatim>\<open>option_is_default\<close>, lines 123 to 138.\<close>

definition option_is_default :: "VmafOption option \<Rightarrow> view option \<Rightarrow> int" where
  "option_is_default opt data =
     (case opt of
        None \<Rightarrow> - EINVAL
      | Some p \<Rightarrow>
          (case data of
             None \<Rightarrow> - EINVAL
           | Some v \<Rightarrow>
               (case opt_type p of
                  VMAF_OPT_TYPE_BOOL \<Rightarrow> (if as_bool (opt_default_val p) = as_bool v then 1 else 0)
                | VMAF_OPT_TYPE_INT \<Rightarrow> (if as_int (opt_default_val p) = as_int v then 1 else 0)
                | VMAF_OPT_TYPE_DOUBLE \<Rightarrow>
                    (if double_eq (as_double (opt_default_val p)) (as_double v) then 1 else 0)
                | VMAF_OPT_TYPE_OTHER \<Rightarrow> - EINVAL)))"

text \<open>
  The \<^verbatim>\<open>switch\<close> of lines 160 to 172: the value is printed into the local buffer.
\<close>

definition rendered :: "extern \<Rightarrow> VmafOption \<Rightarrow> view \<Rightarrow> buffer \<Rightarrow> nat \<Rightarrow> fault + buffer" where
  "rendered X opt data buf buf_sz =
     (case opt_type opt of
        VMAF_OPT_TYPE_BOOL \<Rightarrow> snprintf buf 0 buf_sz (printf_d (if as_bool data then 1 else 0))
      | VMAF_OPT_TYPE_INT \<Rightarrow> snprintf buf 0 buf_sz (printf_d (sint (as_int data)))
      | VMAF_OPT_TYPE_DOUBLE \<Rightarrow> snprintf buf 0 buf_sz (printf_g X (as_double data))
      | VMAF_OPT_TYPE_OTHER \<Rightarrow> Inr buf)"

text \<open>
  The loop over the descriptors, lines 150 to 176. It ends with the error of the
  insertion that failed, or with 0.
\<close>

fun collect_opts ::
  "extern \<Rightarrow> (nat \<Rightarrow> view) \<Rightarrow> VmafOption list \<Rightarrow> VmafDictionary option \<Rightarrow> heap
     \<Rightarrow> fault + (int \<times> VmafDictionary option \<times> heap)" where
  "collect_opts X obj [] opts_dict h = Inr (0, opts_dict, h)"
| "collect_opts X obj (opt # opts) opts_dict h =
     (case opt_name opt of
        None \<Rightarrow> Inr (0, opts_dict, h)
      | Some oname \<Rightarrow>
          if \<not> opt_flag_feature_param opt then collect_opts X obj opts opts_dict h
          else
            (let data = obj (opt_offset opt) in
             if option_is_default (Some opt) (Some data) \<noteq> 0 then collect_opts X obj opts opts_dict h
             else
               (let buf_sz = VMAF_FEATURE_NAME_DEFAULT_BUFFER_SIZE X;
                    buf = replicate (buf_sz + 1) NUL
                in case rendered X opt data buf buf_sz of
                     Inl f \<Rightarrow> Inl f
                   | Inr buf' \<Rightarrow>
                       (case vmaf_dictionary_set opts_dict oname (cstr_of buf') h of
                          (err, opts_dict', h') \<Rightarrow>
                            if err \<noteq> 0 then Inr (err, opts_dict', h')
                            else collect_opts X obj opts opts_dict' h'))))"

text \<open>\<^verbatim>\<open>vmaf_feature_name_from_options\<close>, lines 140 to 183.\<close>

definition vmaf_feature_name_from_options ::
  "extern \<Rightarrow> string option \<Rightarrow> VmafOption list option \<Rightarrow> (nat \<Rightarrow> view) option \<Rightarrow> heap
     \<Rightarrow> fault + (buffer option \<times> heap)" where
  "vmaf_feature_name_from_options X name opts obj h =
     (case name of
        None \<Rightarrow> Inr (None, h)
      | Some nm \<Rightarrow>
          (case opts of
             None \<Rightarrow> Inr (None, h)
           | Some os \<Rightarrow>
               (case obj of
                  None \<Rightarrow> Inr (None, h)
                | Some ob \<Rightarrow>
                    (case collect_opts X ob os None h of
                       Inl f \<Rightarrow> Inl f
                     | Inr (err, opts_dict, h1) \<Rightarrow>
                         if err \<noteq> 0 then Inr (None, snd (vmaf_dictionary_free opts_dict h1))
                         else
                           (case vmaf_feature_name_from_opts_dict X nm (Some os) opts_dict h1 of
                              Inl f \<Rightarrow> Inl f
                            | Inr (output, h2) \<Rightarrow>
                                Inr (output, snd (vmaf_dictionary_free opts_dict h2)))))))"

subsection \<open>The batch map builder\<close>

text \<open>
  \<^verbatim>\<open>vmaf_feature_name_dict_from_provided_features\<close>, lines 185 to 204. The function
  returns a dictionary pointer, NULL for a dictionary with no entry, or on failure the
  integer \<^verbatim>\<open>-EINVAL\<close> in the place of the pointer.
\<close>

datatype dict_result = Returned_dict "VmafDictionary option" | Returned_code int

text \<open>
  The loop over the names, lines 192 to 198; the flag tells whether it left through
  \<^verbatim>\<open>fail\<close>.
\<close>

fun provided_loop ::
  "extern \<Rightarrow> string option list \<Rightarrow> VmafOption list option \<Rightarrow> (nat \<Rightarrow> view) option
     \<Rightarrow> VmafDictionary option \<Rightarrow> heap \<Rightarrow> fault + (bool \<times> VmafDictionary option \<times> heap)" where
  "provided_loop X [] opts obj dict h = Inr (False, dict, h)"
| "provided_loop X (p # ps) opts obj dict h =
     (case p of
        None \<Rightarrow> Inr (False, dict, h)
      | Some feature_name \<Rightarrow>
          (case vmaf_feature_name_from_options X (Some feature_name) opts obj h of
             Inl f \<Rightarrow> Inl f
           | Inr (None, h1) \<Rightarrow> Inr (True, dict, h1)
           | Inr (Some fn, h1) \<Rightarrow>
               (case vmaf_dictionary_set dict feature_name (cstr_of fn) h1 of
                  (err, dict', h2) \<Rightarrow>
                    if err \<noteq> 0 then Inr (True, dict', free h2)
                    else provided_loop X ps opts obj dict' (free h2))))"

definition vmaf_feature_name_dict_from_provided_features ::
  "extern \<Rightarrow> string option list \<Rightarrow> VmafOption list option \<Rightarrow> (nat \<Rightarrow> view) option \<Rightarrow> heap
     \<Rightarrow> fault + (dict_result \<times> heap)" where
  "vmaf_feature_name_dict_from_provided_features X provided_features opts obj h =
     (case provided_loop X provided_features opts obj None h of
        Inl f \<Rightarrow> Inl f
      | Inr (failed, dict, h1) \<Rightarrow>
          if failed then Inr (Returned_code (- EINVAL), snd (vmaf_dictionary_free dict h1))
          else Inr (Returned_dict dict, h1))"

section \<open>Notions used to state the properties\<close>

text \<open>
  The local buffers of the file have \<open>n + 1\<close> bytes, all NUL at first, and are written
  through a size of \<open>n\<close>: they hold a string followed by NULs only.
\<close>

definition padded :: "nat \<Rightarrow> string \<Rightarrow> buffer" where
  "padded n s = s @ replicate (n + 1 - length s) NUL"

text \<open>The descriptors of an array, up to the one whose name is NULL.\<close>

definition named_opts :: "VmafOption list \<Rightarrow> VmafOption list" where
  "named_opts os = takeWhile (\<lambda>opt. opt_name opt \<noteq> None) os"

definition c_string_opt :: "VmafOption \<Rightarrow> bool" where
  "c_string_opt opt =
     ((case opt_name opt of None \<Rightarrow> True | Some n \<Rightarrow> c_string n) \<and>
      (case opt_alias opt of None \<Rightarrow> True | Some a \<Rightarrow> c_string a))"

text \<open>What the composer appends for one descriptor, and for all of them.\<close>

definition entries_text :: "VmafOption \<Rightarrow> string \<Rightarrow> VmafDictionary \<Rightarrow> string" where
  "entries_text opt oname d =
     (if opt_flag_feature_param opt
      then concat (map (\<lambda>e. ''_'' @ (case opt_alias opt of Some a \<Rightarrow> a | None \<Rightarrow> oname) @ ''_'' @ snd e)
                    (filter (\<lambda>e. fst e = oname) d))
      else [])"

definition opts_text :: "VmafOption list \<Rightarrow> VmafDictionary \<Rightarrow> string" where
  "opts_text os d = concat (map (\<lambda>opt. entries_text opt (the (opt_name opt)) d) (named_opts os))"

text \<open>
  The composer in the spec's words: the display alias of the base name, then, for every
  descriptor in declaration order that is naming-relevant and whose name is a key of the
  set, \<open>_{aliasOrName}_{value}\<close>. The set is read as a map here, so the order of its
  entries plays no part.
\<close>

definition descriptor_text :: "VmafDictionary \<Rightarrow> VmafOption \<Rightarrow> string" where
  "descriptor_text d opt =
     (case opt_name opt of
        None \<Rightarrow> []
      | Some n \<Rightarrow>
          (case map_of d n of
             None \<Rightarrow> []
           | Some v \<Rightarrow>
               if opt_flag_feature_param opt
               then ''_'' @ (case opt_alias opt of Some a \<Rightarrow> a | None \<Rightarrow> n) @ ''_'' @ v
               else []))"

definition declaration_order_name :: "extern \<Rightarrow> string \<Rightarrow> VmafOption list \<Rightarrow> VmafDictionary \<Rightarrow> string" where
  "declaration_order_name X name os d =
     vmaf_feature_name_alias X name @ concat (map (descriptor_text d) (named_opts os))"

text \<open>
  The introspector in the spec's words. A value differs from the descriptor's default by
  the exact equality of the descriptor's kind; a descriptor is included when it is
  naming-relevant and its value differs; the value is rendered as \<open>0\<close> or \<open>1\<close>, in
  decimal, or by \<^verbatim>\<open>%g\<close>.
\<close>

definition differs :: "VmafOption \<Rightarrow> view \<Rightarrow> bool" where
  "differs opt v =
     (case opt_type opt of
        VMAF_OPT_TYPE_BOOL \<Rightarrow> as_bool (opt_default_val opt) \<noteq> as_bool v
      | VMAF_OPT_TYPE_INT \<Rightarrow> as_int (opt_default_val opt) \<noteq> as_int v
      | VMAF_OPT_TYPE_DOUBLE \<Rightarrow> \<not> double_eq (as_double (opt_default_val opt)) (as_double v)
      | VMAF_OPT_TYPE_OTHER \<Rightarrow> False)"

definition non_default :: "(nat \<Rightarrow> view) \<Rightarrow> VmafOption \<Rightarrow> bool" where
  "non_default obj opt = (opt_flag_feature_param opt \<and> differs opt (obj (opt_offset opt)))"

definition value_text :: "extern \<Rightarrow> VmafOption \<Rightarrow> view \<Rightarrow> string" where
  "value_text X opt v =
     (case opt_type opt of
        VMAF_OPT_TYPE_BOOL \<Rightarrow> (if as_bool v then ''1'' else ''0'')
      | VMAF_OPT_TYPE_INT \<Rightarrow> printf_d (sint (as_int v))
      | VMAF_OPT_TYPE_DOUBLE \<Rightarrow> printf_g X (as_double v)
      | VMAF_OPT_TYPE_OTHER \<Rightarrow> [])"

text \<open>The descriptors the scan inserts, and the pairs it inserts for them.\<close>

definition inserted_opts :: "(nat \<Rightarrow> view) \<Rightarrow> VmafOption list \<Rightarrow> VmafOption list" where
  "inserted_opts obj os = filter (non_default obj) (named_opts os)"

definition extracted_pair :: "extern \<Rightarrow> (nat \<Rightarrow> view) \<Rightarrow> VmafOption \<Rightarrow> string \<times> string" where
  "extracted_pair X obj opt =
     (the (opt_name opt),
      take (VMAF_FEATURE_NAME_DEFAULT_BUFFER_SIZE X - 1) (value_text X opt (obj (opt_offset opt))))"

definition extracted :: "extern \<Rightarrow> (nat \<Rightarrow> view) \<Rightarrow> VmafOption list \<Rightarrow> (string \<times> string) list" where
  "extracted X obj os = map (extracted_pair X obj) (inserted_opts obj os)"

text \<open>
  The insertions of a scan, one after the other, up to the first that fails. The value
  handed to the store is the C string in the local buffer.
\<close>

definition inserted_pair :: "extern \<Rightarrow> (nat \<Rightarrow> view) \<Rightarrow> VmafOption \<Rightarrow> string \<times> string" where
  "inserted_pair X obj opt =
     (the (opt_name opt),
      cstr_of (take (VMAF_FEATURE_NAME_DEFAULT_BUFFER_SIZE X - 1)
                 (value_text X opt (obj (opt_offset opt)))))"

fun insert_all ::
  "(string \<times> string) list \<Rightarrow> VmafDictionary option \<Rightarrow> heap \<Rightarrow> int \<times> VmafDictionary option \<times> heap" where
  "insert_all [] dict h = (0, dict, h)"
| "insert_all (p # ps) dict h =
     (case vmaf_dictionary_set dict (fst p) (snd p) h of
        (err, dict', h') \<Rightarrow> if err \<noteq> 0 then (err, dict', h') else insert_all ps dict' h')"

fun put_all :: "VmafDictionary option \<Rightarrow> (string \<times> string) list \<Rightarrow> VmafDictionary option" where
  "put_all dict [] = dict"
| "put_all dict (p # ps) =
     put_all (Some (case dict of None \<Rightarrow> [p] | Some d \<Rightarrow> dict_put (fst p) (snd p) d)) ps"

text \<open>What a descriptor contributes to the canonical name.\<close>

definition included_text :: "extern \<Rightarrow> (nat \<Rightarrow> view) \<Rightarrow> VmafOption \<Rightarrow> string" where
  "included_text X obj opt =
     (if non_default obj opt
      then ''_'' @ (case opt_alias opt of Some a \<Rightarrow> a | None \<Rightarrow> the (opt_name opt)) @ ''_''
             @ take (VMAF_FEATURE_NAME_DEFAULT_BUFFER_SIZE X - 1) (value_text X opt (obj (opt_offset opt)))
      else [])"

text \<open>
  No allocation failed between two heaps: the outcomes used up were all successes.
\<close>

definition no_failure :: "heap \<Rightarrow> heap \<Rightarrow> bool" where
  "no_failure h h' =
     (\<exists>k. list_all id (take k (alloc_outcomes h)) \<and> alloc_outcomes h' = drop k (alloc_outcomes h))"

definition dict_keys :: "VmafDictionary option \<Rightarrow> string set" where
  "dict_keys dict = (case dict of None \<Rightarrow> {} | Some d \<Rightarrow> fst ` set d)"

text \<open>The names of a NULL-terminated array of names.\<close>

definition provided_names :: "string option list \<Rightarrow> string list" where
  "provided_names ps = map the (takeWhile (\<lambda>p. p \<noteq> None) ps)"

subsection \<open>Concrete inputs\<close>

text \<open>
  A display-alias table with one entry, a \<^verbatim>\<open>%g\<close> that knows the doubles 1, 1.5 and 2,
  and a buffer size of 256.
\<close>

definition sample_extern :: extern where
  "sample_extern =
     \<lparr>vmaf_feature_name_alias = (\<lambda>n. if n = ''VMAF_integer_feature_adm2_score'' then ''integer_adm2'' else n),
      printf_g = (\<lambda>x. if x = 0x3FF0000000000000 then ''1''
                       else if x = 0x3FF8000000000000 then ''1.5''
                       else if x = 0x4000000000000000 then ''2'' else ''0''),
      VMAF_FEATURE_NAME_DEFAULT_BUFFER_SIZE = 256\<rparr>"

definition empty_heap :: heap where
  "empty_heap = \<lparr>alloc_outcomes = [], live_objects = 0\<rparr>"

definition no_view :: view where
  "no_view = \<lparr>as_bool = False, as_int = 0, as_double = 0\<rparr>"

definition egl_opt :: VmafOption where
  "egl_opt =
     \<lparr>opt_name = Some ''adm_enhn_gain_limit'', opt_alias = Some ''egl'',
      opt_type = VMAF_OPT_TYPE_DOUBLE,
      opt_default_val = no_view\<lparr>as_double := 0x3FF0000000000000\<rparr>,
      opt_offset = 0, opt_flag_feature_param = True\<rparr>"

definition nvd_opt :: VmafOption where
  "nvd_opt =
     \<lparr>opt_name = Some ''adm_norm_view_dist'', opt_alias = Some ''nvd'',
      opt_type = VMAF_OPT_TYPE_DOUBLE,
      opt_default_val = no_view\<lparr>as_double := 0x4000000000000000\<rparr>,
      opt_offset = 8, opt_flag_feature_param = True\<rparr>"

text \<open>A configuration instance in which every double reads 1.5.\<close>

definition one_and_a_half :: "nat \<Rightarrow> view" where
  "one_and_a_half off = no_view\<lparr>as_double := 0x3FF8000000000000\<rparr>"

text \<open>A configuration instance in which every double reads 1.\<close>

definition one_point_zero :: "nat \<Rightarrow> view" where
  "one_point_zero off = no_view\<lparr>as_double := 0x3FF0000000000000\<rparr>"

text \<open>
  A second descriptor of the name \<open>adm_enhn_gain_limit\<close>, for the field at offset 8, and
  a configuration instance whose double at offset 0 reads 1 and every other 1.5.
\<close>

definition egl_opt_again :: VmafOption where
  "egl_opt_again = egl_opt\<lparr>opt_offset := 8\<rparr>"

definition one_then_one_and_a_half :: "nat \<Rightarrow> view" where
  "one_then_one_and_a_half off =
     no_view\<lparr>as_double := (if off = 0 then 0x3FF0000000000000 else 0x3FF8000000000000)\<rparr>"

section \<open>Lemmas\<close>

subsection \<open>C strings in buffers\<close>

text \<open>
  The characters before the first NUL, and what \<^verbatim>\<open>snprintf\<close> and
  \<^verbatim>\<open>snprintfcat\<close> do to a buffer.
\<close>

lemma c_string_Nil: "c_string []"
  by (simp add: c_string_def)

lemma c_string_Cons: "c_string (c # s) = (c \<noteq> NUL \<and> c_string s)"
  by (auto simp: c_string_def)

lemma c_string_append: "c_string (s @ t) = (c_string s \<and> c_string t)"
  by (auto simp: c_string_def)

lemma c_string_take: "c_string s \<Longrightarrow> c_string (take n s)"
  by (auto simp: c_string_def dest: in_set_takeD)

lemma underscore_not_NUL: "CHR ''_'' \<noteq> NUL"
  by (simp add: NUL_def)

lemma cstr_of_c_string: "c_string s \<Longrightarrow> cstr_of s = s"
  by (induction s) (auto simp: cstr_of_def c_string_def)

lemma cstr_of_append_NUL: "c_string s \<Longrightarrow> cstr_of (s @ NUL # rest) = s"
  by (induction s) (auto simp: cstr_of_def c_string_def)

lemma cstr_of_cut: "cstr_of (s @ NUL # rest) = cstr_of s"
  by (induction s) (simp_all add: cstr_of_def)

lemma cstr_of_replicate: "c_string s \<Longrightarrow> cstr_of (s @ replicate k NUL) = s"
  by (cases k) (simp_all add: cstr_of_c_string cstr_of_append_NUL)

lemma cstr_of_padded: "c_string s \<Longrightarrow> cstr_of (padded n s) = s"
  by (simp add: padded_def cstr_of_replicate)

lemma padded_Nil: "replicate (n + 1) NUL = padded n []"
  by (simp add: padded_def)

lemma two_NULs: "replicate 2 NUL = [NUL, NUL]"
  by (simp add: numeral_2_eq_2)

lemma take_take_append: "take k (take k xs @ ys) = take k (xs @ ys)"
  by (simp add: min_def)

lemma strnlen_le: "strnlen buf n \<le> n"
proof -
  have "length (takeWhile (\<lambda>c. c \<noteq> NUL) (take n buf)) \<le> length (take n buf)"
    by (rule length_takeWhile_le)
  then show ?thesis by (simp add: strnlen_def cstr_of_def)
qed

lemma strnlen_padded:
  assumes "c_string s" "length s \<le> n - 1"
  shows "strnlen (padded n s) n = length s"
proof (cases "n = 0")
  case True
  with assms show ?thesis by (simp add: strnlen_def cstr_of_def)
next
  case False
  with assms have "take n (padded n s) = s @ replicate (n - length s) NUL"
    by (simp add: padded_def)
  with assms show ?thesis by (simp add: strnlen_def cstr_of_replicate)
qed

lemma store_fits:
  assumes "off + length bs \<le> length buf"
  shows "\<exists>buf'. store buf off bs = Inr buf' \<and> length buf' = length buf"
  using assms by (simp add: store_def)

lemma snprintf_fits:
  assumes "off + n \<le> length buf"
  shows "\<exists>buf'. snprintf buf off n t = Inr buf' \<and> length buf' = length buf"
proof (cases "n = 0")
  case True
  then show ?thesis by (simp add: snprintf_def)
next
  case False
  with assms have "off + length (take (n - 1) t @ [NUL]) \<le> length buf" by simp
  from store_fits [OF this] False show ?thesis by (simp add: snprintf_def)
qed

lemma snprintf_fresh:
  "\<exists>buf'. snprintf (replicate (n + 1) NUL) 0 n t = Inr buf'
          \<and> cstr_of buf' = cstr_of (take (n - 1) t)"
proof (cases "n = 0")
  case True
  then show ?thesis by (simp add: snprintf_def cstr_of_def)
next
  case False
  let ?rest = "drop (0 + length (take (n - 1) t @ [NUL])) (replicate (n + 1) NUL)"
  have "0 + length (take (n - 1) t @ [NUL]) \<le> length (replicate (n + 1) NUL)"
    using False by simp
  then have "store (replicate (n + 1) NUL) 0 (take (n - 1) t @ [NUL])
               = Inr (take (n - 1) t @ NUL # ?rest)"
    unfolding store_def by simp
  then have "snprintf (replicate (n + 1) NUL) 0 n t = Inr (take (n - 1) t @ NUL # ?rest)"
    using False by (simp only: snprintf_def if_False)
  moreover have "cstr_of (take (n - 1) t @ NUL # ?rest) = cstr_of (take (n - 1) t)"
    by (rule cstr_of_cut)
  ultimately show ?thesis by (intro exI conjI)
qed

lemma snprintfcat_fits:
  assumes "n \<le> length buf"
  shows "\<exists>buf'. snprintfcat buf n t = Inr buf' \<and> length buf' = length buf"
proof -
  have "strnlen buf n + (n - strnlen buf n) \<le> length buf"
    using assms strnlen_le [of buf n] by simp
  from snprintf_fits [OF this] show ?thesis by (simp add: snprintfcat_def Let_def)
qed

lemma snprintfcat_padded:
  assumes "c_string s" "length s \<le> n - 1"
  shows "snprintfcat (padded n s) n t = Inr (padded n (take (n - 1) (s @ t)))"
proof (cases "n = 0")
  case True
  with assms show ?thesis
    by (simp add: snprintfcat_def strnlen_padded snprintf_def)
next
  case False
  let ?k = "n - length s - 1"
  have len: "strnlen (padded n s) n = length s" using assms by (rule strnlen_padded)
  have pos: "n - length s \<noteq> 0" using assms False by simp
  have fit: "length s + length (take ?k t @ [NUL]) \<le> length (padded n s)"
    using assms False by (simp add: padded_def)
  have tk: "take (n - 1) (s @ t) = s @ take ?k t"
    using assms False by simp
  have "take (length s) (padded n s) @ (take ?k t @ [NUL])
          @ drop (length s + length (take ?k t @ [NUL])) (padded n s)
        = padded n (s @ take ?k t)"
    using assms False
    by (simp add: padded_def replicate_Suc [symmetric] Suc_diff_le del: replicate_Suc)
  with len pos fit tk show ?thesis
    by (simp add: snprintfcat_def snprintf_def store_def Let_def)
qed

lemma strncpy_padded:
  assumes "c_string s" "length s \<le> n - 1"
  shows "strncpy (padded n s) (strnlen (padded n s) n + 1) = s @ [NUL]"
  using assms by (simp add: strncpy_def strnlen_padded cstr_of_padded)

lemma memset_prefix:
  assumes "n \<le> length buf"
  shows "memset buf c n = Inr (replicate n c @ drop n buf)"
  using assms by (simp add: memset_def store_def)

lemma snprintf_zeroed:
  assumes "1 \<le> n"
  shows "snprintf (replicate n NUL @ rest) 0 (n - 1) t
           = Inr (take (n - 2) t @ replicate (n - min (length t) (n - 2)) NUL @ rest)"
proof (cases "n = 1")
  case True
  then show ?thesis by (simp add: snprintf_def)
next
  case False
  with assms have n: "2 \<le> n" by simp
  let ?k = "min (length t) (n - 2)"
  have "replicate n NUL = replicate (Suc ?k) NUL @ replicate (n - Suc ?k) NUL"
    using n by (simp add: replicate_add [symmetric] del: replicate_Suc)
  then have "drop (Suc ?k) (replicate n NUL @ rest) = replicate (n - Suc ?k) NUL @ rest"
    by simp
  moreover have "n - 1 - 1 = n - 2" by simp
  moreover have "NUL # replicate (n - Suc ?k) NUL = replicate (n - ?k) NUL"
    using n by (simp add: replicate_Suc [symmetric] Suc_diff_le del: replicate_Suc)
  ultimately show ?thesis
    using n by (simp add: snprintf_def store_def)
qed

lemma digit_not_NUL: "k < 10 \<Longrightarrow> ''0123456789'' ! k \<noteq> NUL"
proof -
  assume "k < 10"
  then have "''0123456789'' ! k \<in> set ''0123456789''" by (intro nth_mem) simp
  then show ?thesis by (auto simp: NUL_def)
qed

lemma c_string_dec: "c_string (dec n)"
proof (induction n rule: dec.induct)
  case (1 n)
  show ?case
  proof (cases "n < 10")
    case True
    then show ?thesis
      by (subst dec.simps) (simp add: c_string_Cons c_string_Nil digit_not_NUL)
  next
    case False
    with 1 have "c_string (dec (n div 10))" by simp
    moreover have "''0123456789'' ! (n mod 10) \<noteq> NUL" by (intro digit_not_NUL) simp
    ultimately show ?thesis
      using False by (subst dec.simps) (simp add: c_string_append c_string_Cons c_string_Nil)
  qed
qed

lemma c_string_printf_d: "c_string (printf_d i)"
  by (simp add: printf_d_def c_string_Cons c_string_dec NUL_def)

lemma dec_0: "dec 0 = ''0''"
  by (subst dec.simps) simp

lemma dec_1: "dec (Suc 0) = ''1''"
  by (subst dec.simps) simp

lemma printf_d_bool: "printf_d (if b then 1 else 0) = (if b then ''1'' else ''0'')"
  by (simp add: printf_d_def dec_0 dec_1)

subsection \<open>The heap and the store\<close>

text \<open>
  Allocation outcomes, the count of live objects, and the two operations of the
  dictionary.
\<close>

lemma no_failure_refl: "no_failure h h"
proof -
  have "list_all id (take 0 (alloc_outcomes h)) \<and> alloc_outcomes h = drop 0 (alloc_outcomes h)"
    by simp
  then show ?thesis unfolding no_failure_def by (rule exI)
qed

lemma no_failure_trans:
  assumes "no_failure h1 h2" "no_failure h2 h3"
  shows "no_failure h1 h3"
proof -
  from assms obtain j k where
    j: "list_all id (take j (alloc_outcomes h1))" "alloc_outcomes h2 = drop j (alloc_outcomes h1)" and
    k: "list_all id (take k (alloc_outcomes h2))" "alloc_outcomes h3 = drop k (alloc_outcomes h2)"
    unfolding no_failure_def by blast
  have "take (j + k) (alloc_outcomes h1) = take j (alloc_outcomes h1) @ take k (alloc_outcomes h2)"
    by (simp add: j(2) take_add)
  with j k have "list_all id (take (j + k) (alloc_outcomes h1))
      \<and> alloc_outcomes h3 = drop (j + k) (alloc_outcomes h1)"
    by (simp add: add.commute)
  then show ?thesis unfolding no_failure_def by (rule exI)
qed

lemma no_failure_same_outcomes:
  assumes "alloc_outcomes h' = alloc_outcomes h"
  shows "no_failure h h'"
  using no_failure_refl [of h] assms by (simp add: no_failure_def)

lemma no_failure_all_ok:
  assumes "no_failure h h'" "list_all id (alloc_outcomes h)"
  shows "list_all id (alloc_outcomes h')"
proof -
  from assms(1) obtain k where "alloc_outcomes h' = drop k (alloc_outcomes h)"
    unfolding no_failure_def by blast
  with assms(2) show ?thesis by (auto simp: list_all_iff dest: in_set_dropD)
qed

lemma next_outcome_cases:
  "(\<exists>rest. alloc_outcomes h = False # rest \<and> next_outcome h = (False, h\<lparr>alloc_outcomes := rest\<rparr>))
   \<or> (list_all id (take 1 (alloc_outcomes h))
        \<and> next_outcome h = (True, h\<lparr>alloc_outcomes := drop 1 (alloc_outcomes h)\<rparr>))"
proof (cases "alloc_outcomes h")
  case Nil
  then show ?thesis by (simp add: next_outcome_def)
next
  case (Cons ok rest)
  then show ?thesis by (cases ok) (simp_all add: next_outcome_def)
qed

lemma malloc_cases:
  "(\<not> fst (malloc h) \<and> live_objects (snd (malloc h)) = live_objects h)
   \<or> (fst (malloc h) \<and> live_objects (snd (malloc h)) = live_objects h + 1
        \<and> no_failure h (snd (malloc h)))"
proof -
  from next_outcome_cases [of h] show ?thesis
  proof (elim disjE exE conjE)
    fix rest
    assume "next_outcome h = (False, h\<lparr>alloc_outcomes := rest\<rparr>)"
    then show ?thesis by (simp add: malloc_def)
  next
    assume t: "list_all id (take 1 (alloc_outcomes h))"
      and n: "next_outcome h = (True, h\<lparr>alloc_outcomes := drop 1 (alloc_outcomes h)\<rparr>)"
    have "list_all id (take 1 (alloc_outcomes h))
        \<and> alloc_outcomes (snd (malloc h)) = drop 1 (alloc_outcomes h)"
      using t n by (simp add: malloc_def)
    then have "no_failure h (snd (malloc h))" unfolding no_failure_def by (rule exI)
    with n show ?thesis by (simp add: malloc_def)
  qed
qed

lemma malloc_succeeds:
  assumes "list_all id (alloc_outcomes h)"
  shows "fst (malloc h)"
proof -
  from next_outcome_cases [of h] assms have "fst (next_outcome h)" by auto
  then show ?thesis by (cases "next_outcome h") (simp add: malloc_def)
qed

lemma free_live: "live_objects (free h) = live_objects h - 1"
  by (simp add: free_def)

lemma free_outcomes: "alloc_outcomes (free h) = alloc_outcomes h"
  by (simp add: free_def)

lemma heap_eqI:
  fixes h h' :: heap
  assumes "alloc_outcomes h' = xs" "live_objects h' = live_objects h"
  shows "h' = h\<lparr>alloc_outcomes := xs\<rparr>"
  using assms by (cases h, cases h') simp

lemma vmaf_dictionary_set_cases:
  "(\<exists>h'. vmaf_dictionary_set dict k v h = (- ENOMEM, dict, h')
         \<and> alloc_outcomes h = False # alloc_outcomes h' \<and> live_objects h' = live_objects h)
   \<or> (\<exists>h'. vmaf_dictionary_set dict k v h
              = (0, Some (case dict of None \<Rightarrow> [(k, v)] | Some d \<Rightarrow> dict_put k v d), h')
         \<and> list_all id (take 1 (alloc_outcomes h))
         \<and> alloc_outcomes h' = drop 1 (alloc_outcomes h)
         \<and> live_objects h' = live_objects h + (if dict = None then 1 else 0))"
  using next_outcome_cases [of h]
  by (cases dict) (auto simp: vmaf_dictionary_set_def)

lemma dictionary_free_live:
  "live_objects (snd (vmaf_dictionary_free d h)) = live_objects h - (if d = None then 0 else 1)"
  by (cases d) (simp_all add: vmaf_dictionary_free_def free_def)

lemma dictionary_free_outcomes:
  "alloc_outcomes (snd (vmaf_dictionary_free d h)) = alloc_outcomes h"
  by (cases d) (simp_all add: vmaf_dictionary_free_def free_def)

lemma dict_put_keys: "fst ` set (dict_put k v d) = insert k (fst ` set d)"
  by (induction d) auto

lemma dict_put_fresh:
  assumes "k \<notin> fst ` set d"
  shows "dict_put k v d = d @ [(k, v)]"
  using assms by (induction d) auto

lemma put_all_distinct:
  assumes "distinct (map fst (d @ ps))"
  shows "put_all (Some d) ps = Some (d @ ps)"
  using assms
proof (induction ps arbitrary: d)
  case Nil
  then show ?case by simp
next
  case (Cons p ps)
  have "fst p \<notin> fst ` set d" using Cons.prems by auto
  then have "dict_put (fst p) (snd p) d = d @ [p]" by (simp add: dict_put_fresh)
  moreover have "distinct (map fst ((d @ [p]) @ ps))" using Cons.prems by simp
  ultimately show ?case using Cons.IH [of "d @ [p]"] by simp
qed

lemma put_all_None_distinct:
  assumes "distinct (map fst ps)"
  shows "put_all None ps = (if ps = [] then None else Some ps)"
proof (cases ps)
  case Nil
  then show ?thesis by simp
next
  case (Cons p qs)
  with assms have "distinct (map fst ([p] @ qs))" by simp
  from put_all_distinct [OF this] Cons show ?thesis by simp
qed

lemma insert_all_facts:
  "\<exists>err d' h'. insert_all ps dict h = (err, d', h')
     \<and> live_objects h' = live_objects h + (if dict = None \<and> d' \<noteq> None then 1 else 0)
     \<and> (dict = None \<or> d' \<noteq> None)
     \<and> ((err \<noteq> 0) = (False \<in> set (take (length ps) (alloc_outcomes h))))
     \<and> (err \<noteq> 0 \<or> no_failure h h')"
proof (induction ps arbitrary: dict h)
  case Nil
  then show ?case by (cases dict) (simp_all add: no_failure_refl)
next
  case (Cons p ps)
  from vmaf_dictionary_set_cases [of dict "fst p" "snd p" h] show ?case
  proof (elim disjE exE conjE)
    fix h'
    assume s: "vmaf_dictionary_set dict (fst p) (snd p) h = (- ENOMEM, dict, h')"
      and o: "alloc_outcomes h = False # alloc_outcomes h'"
      and l: "live_objects h' = live_objects h"
    have "insert_all (p # ps) dict h = (- ENOMEM, dict, h')"
      using s by (simp add: ENOMEM_def)
    with o l show ?thesis by (cases dict) (simp_all add: ENOMEM_def)
  next
    fix h'
    let ?d = "Some (case dict of None \<Rightarrow> [(fst p, snd p)] | Some d \<Rightarrow> dict_put (fst p) (snd p) d)"
    assume s: "vmaf_dictionary_set dict (fst p) (snd p) h = (0, ?d, h')"
      and t: "list_all id (take 1 (alloc_outcomes h))"
      and o: "alloc_outcomes h' = drop 1 (alloc_outcomes h)"
      and l: "live_objects h' = live_objects h + (if dict = None then 1 else 0)"
    from Cons.IH [of ?d h'] obtain err d' h'' where
      r: "insert_all ps ?d h' = (err, d', h'')"
        "live_objects h'' = live_objects h'" "d' \<noteq> None"
        "(err \<noteq> 0) = (False \<in> set (take (length ps) (alloc_outcomes h')))"
        "err \<noteq> 0 \<or> no_failure h' h''"
      by auto
    have i: "insert_all (p # ps) dict h = (err, d', h'')"
      using s r(1) by simp
    have n: "no_failure h h'"
      unfolding no_failure_def using t o by blast
    have f: "(False \<in> set (take (length (p # ps)) (alloc_outcomes h)))
               = (False \<in> set (take (length ps) (alloc_outcomes h')))"
      using t o by (cases "alloc_outcomes h") auto
    have c2: "live_objects h'' = live_objects h + (if dict = None \<and> d' \<noteq> None then 1 else 0)"
      using r(2,3) l by simp
    have c3: "dict = None \<or> d' \<noteq> None" using r(3) by simp
    have c4: "(err \<noteq> 0) = (False \<in> set (take (length (p # ps)) (alloc_outcomes h)))"
      using r(4) f by simp
    have c5: "err \<noteq> 0 \<or> no_failure h h''"
      using r(5) n by (auto intro: no_failure_trans)
    from i c2 c3 c4 c5 show ?thesis by blast
  qed
qed

lemma insert_all_abort:
  assumes "insert_all ps dict h = (err, d', h')" "err \<noteq> 0"
  shows "alloc_outcomes h' = tl (dropWhile id (alloc_outcomes h))"
  using assms
proof (induction ps arbitrary: dict h)
  case Nil
  then show ?case by simp
next
  case (Cons p ps)
  from vmaf_dictionary_set_cases [of dict "fst p" "snd p" h] show ?case
  proof (elim disjE exE conjE)
    fix h1
    assume s: "vmaf_dictionary_set dict (fst p) (snd p) h = (- ENOMEM, dict, h1)"
      and o: "alloc_outcomes h = False # alloc_outcomes h1"
    have "insert_all (p # ps) dict h = (- ENOMEM, dict, h1)"
      using s by (simp add: ENOMEM_def)
    with Cons.prems(1) have "h' = h1" by simp
    with o show ?thesis by simp
  next
    fix h1
    let ?d = "Some (case dict of None \<Rightarrow> [(fst p, snd p)] | Some d \<Rightarrow> dict_put (fst p) (snd p) d)"
    assume s: "vmaf_dictionary_set dict (fst p) (snd p) h = (0, ?d, h1)"
      and t: "list_all id (take 1 (alloc_outcomes h))"
      and o: "alloc_outcomes h1 = drop 1 (alloc_outcomes h)"
    have i: "insert_all ps ?d h1 = (err, d', h')"
      using s Cons.prems(1) by simp
    then have a: "alloc_outcomes h' = tl (dropWhile id (alloc_outcomes h1))"
      using Cons.prems(2) by (rule Cons.IH)
    from insert_all_facts [of ps ?d h1] i Cons.prems(2)
    have "False \<in> set (take (length ps) (alloc_outcomes h1))" by auto
    then have "alloc_outcomes h1 \<noteq> []" by auto
    with o t have "dropWhile id (alloc_outcomes h) = dropWhile id (alloc_outcomes h1)"
      by (cases "alloc_outcomes h") auto
    with a show ?thesis by (simp only:)
  qed
qed

lemma insert_all_dict:
  assumes "insert_all ps dict h = (0, d', h')"
  shows "d' = put_all dict ps"
  using assms
proof (induction ps arbitrary: dict h)
  case Nil
  then show ?case by simp
next
  case (Cons p ps)
  from vmaf_dictionary_set_cases [of dict "fst p" "snd p" h] show ?case
  proof (elim disjE exE conjE)
    fix h1
    assume "vmaf_dictionary_set dict (fst p) (snd p) h = (- ENOMEM, dict, h1)"
    with Cons.prems show ?thesis by (simp add: ENOMEM_def)
  next
    fix h1
    let ?d = "Some (case dict of None \<Rightarrow> [(fst p, snd p)] | Some d \<Rightarrow> dict_put (fst p) (snd p) d)"
    assume s: "vmaf_dictionary_set dict (fst p) (snd p) h = (0, ?d, h1)"
    then have "insert_all ps ?d h1 = (0, d', h')" using Cons.prems by simp
    then have "d' = put_all ?d ps" by (rule Cons.IH)
    then show ?thesis by (cases dict) simp_all
  qed
qed

subsection \<open>The alias table and the formatter\<close>

lemma key_alias_scan_map_of: "key_alias_scan xs k = map_of xs k"
  by (induction xs) auto

lemma key_alias_None_iff: "key_alias k = None \<longleftrightarrow> k \<notin> fst ` set alias_list"
  by (simp add: key_alias_def key_alias_scan_map_of map_of_eq_None_iff)

lemma distinct_alias_list: "distinct (map fst alias_list)"
  by (simp add: alias_list_def)

lemma key_alias_Some_iff: "key_alias k = Some a \<longleftrightarrow> (k, a) \<in> set alias_list"
  by (simp add: key_alias_def key_alias_scan_map_of distinct_alias_list)

lemma vmaf_feature_name_formatted:
  assumes "key_alias k = Some a" "1 \<le> unat buf_sz" "unat buf_sz \<le> length buf"
  shows "vmaf_feature_name X name (Some k) val buf buf_sz
           = Inr (Returned_buf,
                  take (unat buf_sz - 2) (vmaf_feature_name_alias X name @ ''_'' @ a @ ''_'' @ printf_g X val)
                  @ replicate (unat buf_sz - min (length (vmaf_feature_name_alias X name @ ''_'' @ a @ ''_'' @ printf_g X val)) (unat buf_sz - 2)) NUL
                  @ drop (unat buf_sz) buf)"
proof -
  have nz: "buf_sz \<noteq> 0" using assms(2) by (auto simp: unat_gt_0 [symmetric])
  have u: "unat (buf_sz - 1) = unat buf_sz - 1" using nz by (rule unat_minus_one)
  show ?thesis
    unfolding vmaf_feature_name_def
    by (simp only: option.case assms(1) memset_prefix [OF assms(3)] sum.case u
          snprintf_zeroed [OF assms(2)])
qed

subsection \<open>The composer\<close>

text \<open>
  The composer never writes outside its buffer; on C strings it appends, in the order
  of the descriptors, the text of the entries that match.
\<close>

lemma append_entries_fits:
  assumes "n \<le> length buf"
  shows "\<exists>buf'. append_entries n opt oname es buf = Inr buf' \<and> length buf' = length buf"
  using assms
proof (induction es arbitrary: buf)
  case Nil
  then show ?case by simp
next
  case (Cons e es)
  let ?t = "''_'' @ (case opt_alias opt of Some a \<Rightarrow> a | None \<Rightarrow> oname) @ ''_'' @ snd e"
  obtain buf1 where b1: "snprintfcat buf n ?t = Inr buf1" "length buf1 = length buf"
    using snprintfcat_fits [OF Cons.prems] by blast
  then have "\<exists>buf'. append_entries n opt oname es buf1 = Inr buf' \<and> length buf' = length buf1"
    using Cons.prems by (intro Cons.IH) simp
  with b1 Cons.IH [OF Cons.prems] show ?case by auto
qed

lemma append_opts_fits:
  assumes "n \<le> length buf"
  shows "\<exists>buf'. append_opts n os d buf = Inr buf' \<and> length buf' = length buf"
  using assms
proof (induction os arbitrary: buf)
  case Nil
  then show ?case by simp
next
  case (Cons opt os)
  show ?case
  proof (cases "opt_name opt")
    case None
    then show ?thesis by simp
  next
    case (Some oname)
    obtain buf1 where b1: "append_entries n opt oname d buf = Inr buf1" "length buf1 = length buf"
      using append_entries_fits [OF Cons.prems] by blast
    then have "\<exists>buf'. append_opts n os d buf1 = Inr buf' \<and> length buf' = length buf1"
      using Cons.prems by (intro Cons.IH) simp
    with b1 Some show ?thesis by auto
  qed
qed

lemma from_opts_dict_returns:
  "\<exists>dst. vmaf_feature_name_from_opts_dict X name opts opts_dict h
           = Inr (if fst (malloc h) then Some dst else None, snd (malloc h))"
proof -
  let ?n = "VMAF_FEATURE_NAME_DEFAULT_BUFFER_SIZE X"
  let ?buf = "replicate (?n + 1) NUL"
  let ?filled = "case opts of
               None \<Rightarrow> snprintfcat ?buf ?n name
             | Some os \<Rightarrow>
                 (case opts_dict of
                    None \<Rightarrow> snprintfcat ?buf ?n name
                  | Some d \<Rightarrow>
                      (case snprintfcat ?buf ?n (vmaf_feature_name_alias X name) of
                         Inl f \<Rightarrow> Inl f
                       | Inr buf1 \<Rightarrow> append_opts ?n os d buf1))"
  have le: "?n \<le> length ?buf" by simp
  have "\<exists>buf2. ?filled = Inr buf2"
  proof (cases "opts = None \<or> opts_dict = None")
    case True
    with snprintfcat_fits [OF le, of name] show ?thesis by (auto split: option.splits)
  next
    case False
    then obtain os d where od: "opts = Some os" "opts_dict = Some d" by auto
    obtain buf1 where b1: "snprintfcat ?buf ?n (vmaf_feature_name_alias X name) = Inr buf1"
        "length buf1 = length ?buf"
      using snprintfcat_fits [OF le] by blast
    then have "?n \<le> length buf1" by simp
    from append_opts_fits [OF this, of os d] od b1 show ?thesis by auto
  qed
  then obtain buf2 where f: "?filled = Inr buf2" ..
  have "vmaf_feature_name_from_opts_dict X name opts opts_dict h
          = (case malloc h of
               (ok, h') \<Rightarrow>
                 if \<not> ok then Inr (None, h')
                 else Inr (Some (strncpy buf2 (strnlen buf2 ?n + 1)), h'))"
    unfolding vmaf_feature_name_from_opts_dict_def by (simp only: Let_def f sum.case)
  then show ?thesis
    by (cases "malloc h") auto
qed

lemma append_entries_padded:
  assumes "c_string s" "length s \<le> n - 1" "c_string oname"
    "case opt_alias opt of None \<Rightarrow> True | Some a \<Rightarrow> c_string a"
    "list_all (\<lambda>e. c_string (snd e)) es"
  shows "append_entries n opt oname es (padded n s)
           = Inr (padded n (take (n - 1) (s @ entries_text opt oname es)))"
  using assms
proof (induction es arbitrary: s)
  case Nil
  then show ?case by (simp add: entries_text_def)
next
  case (Cons e es)
  show ?case
  proof (cases "fst e = oname \<and> opt_flag_feature_param opt")
    case False
    with Cons show ?thesis by (auto simp: entries_text_def)
  next
    case True
    then have eq: "fst e = oname" and flag: "opt_flag_feature_param opt" by simp_all
    let ?t = "''_'' @ (case opt_alias opt of Some a \<Rightarrow> a | None \<Rightarrow> oname) @ ''_'' @ snd e"
    let ?s' = "take (n - 1) (s @ ?t)"
    have ct: "c_string ?t"
      using Cons.prems by (auto simp: c_string_append c_string_Cons underscore_not_NUL split: option.splits)
    have cs': "c_string ?s'" using Cons.prems ct by (simp add: c_string_take c_string_append del: take_append)
    have ls': "length ?s' \<le> n - 1" by simp
    have step: "snprintfcat (padded n s) n ?t = Inr (padded n ?s')"
      using Cons.prems by (simp add: snprintfcat_padded del: take_append)
    have ih: "append_entries n opt oname es (padded n ?s')
                = Inr (padded n (take (n - 1) (?s' @ entries_text opt oname es)))"
      using Cons.prems cs' ls' by (intro Cons.IH) simp_all
    have tx: "entries_text opt oname (e # es) = ?t @ entries_text opt oname es"
      using eq flag by (simp add: entries_text_def)
    show ?thesis
      using eq flag step ih by (simp add: tx take_take_append del: take_append)
  qed
qed

lemma opts_text_Nil: "opts_text [] d = []"
  by (simp add: opts_text_def named_opts_def)

lemma opts_text_Cons:
  "opts_text (opt # os) d =
     (case opt_name opt of None \<Rightarrow> [] | Some oname \<Rightarrow> entries_text opt oname d @ opts_text os d)"
  by (simp add: opts_text_def named_opts_def split: option.splits)

lemma c_string_entries_text:
  assumes "c_string oname" "case opt_alias opt of None \<Rightarrow> True | Some a \<Rightarrow> c_string a"
    "list_all (\<lambda>e. c_string (snd e)) d"
  shows "c_string (entries_text opt oname d)"
  using assms
  by (induction d)
    (auto simp: entries_text_def c_string_Nil c_string_append c_string_Cons underscore_not_NUL
          split: option.splits)

lemma c_string_opts_text:
  assumes "list_all c_string_opt os" "list_all (\<lambda>e. c_string (snd e)) d"
  shows "c_string (opts_text os d)"
  using assms
proof (induction os)
  case Nil
  then show ?case by (simp add: opts_text_Nil c_string_Nil)
next
  case (Cons opt os)
  then show ?case
    by (auto simp: opts_text_Cons c_string_Nil c_string_append c_string_opt_def
             intro: c_string_entries_text split: option.splits)
qed

lemma append_opts_padded:
  assumes "c_string s" "length s \<le> n - 1" "list_all c_string_opt os"
    "list_all (\<lambda>e. c_string (snd e)) d"
  shows "append_opts n os d (padded n s) = Inr (padded n (take (n - 1) (s @ opts_text os d)))"
  using assms
proof (induction os arbitrary: s)
  case Nil
  then show ?case by (simp add: opts_text_Nil)
next
  case (Cons opt os)
  show ?case
  proof (cases "opt_name opt")
    case None
    with Cons.prems show ?thesis by (simp add: opts_text_Cons)
  next
    case (Some oname)
    let ?t = "entries_text opt oname d"
    let ?s' = "take (n - 1) (s @ ?t)"
    have co: "c_string oname" "case opt_alias opt of None \<Rightarrow> True | Some a \<Rightarrow> c_string a"
      using Cons.prems Some by (simp_all add: c_string_opt_def)
    have step: "append_entries n opt oname d (padded n s) = Inr (padded n ?s')"
      using Cons.prems co by (intro append_entries_padded) simp_all
    have cs': "c_string ?s'"
      using Cons.prems co
      by (simp add: c_string_take c_string_append c_string_entries_text del: take_append)
    have ih: "append_opts n os d (padded n ?s')
                = Inr (padded n (take (n - 1) (?s' @ opts_text os d)))"
      using Cons.prems cs' by (intro Cons.IH) simp_all
    show ?thesis
      using Some step ih by (simp add: opts_text_Cons take_take_append del: take_append)
  qed
qed

lemma finish_padded:
  assumes "c_string s"
  shows "(case malloc h of
            (ok, h') \<Rightarrow>
              if \<not> ok then Inr (None, h')
              else Inr (Some (strncpy (padded n (take (n - 1) s))
                                (strnlen (padded n (take (n - 1) s)) n + 1)), h'))
         = (Inr (if fst (malloc h) then Some (take (n - 1) s @ [NUL]) else None, snd (malloc h))
              :: fault + (buffer option \<times> heap))"
proof -
  have "strncpy (padded n (take (n - 1) s)) (strnlen (padded n (take (n - 1) s)) n + 1)
          = take (n - 1) s @ [NUL]"
    using assms by (intro strncpy_padded) (simp_all add: c_string_take)
  then show ?thesis
    by (cases "malloc h") simp
qed

lemma from_opts_dict_absent:
  assumes "c_string name" "opts = None \<or> opts_dict = None"
  shows "vmaf_feature_name_from_opts_dict X name opts opts_dict h
           = Inr (if fst (malloc h)
                  then Some (take (VMAF_FEATURE_NAME_DEFAULT_BUFFER_SIZE X - 1) name @ [NUL])
                  else None, snd (malloc h))"
proof -
  let ?n = "VMAF_FEATURE_NAME_DEFAULT_BUFFER_SIZE X"
  have fill: "snprintfcat (padded ?n []) ?n name = Inr (padded ?n (take (?n - 1) name))"
    using snprintfcat_padded [of "[]" ?n name] by (simp add: c_string_Nil)
  from assms(2) show ?thesis
  proof
    assume "opts = None"
    then show ?thesis
      unfolding vmaf_feature_name_from_opts_dict_def
      by (simp only: Let_def option.case sum.case padded_Nil fill finish_padded [OF assms(1)])
  next
    assume "opts_dict = None"
    then show ?thesis
      unfolding vmaf_feature_name_from_opts_dict_def
      by (cases opts)
        (simp_all only: Let_def option.case sum.case padded_Nil fill finish_padded [OF assms(1)])
  qed
qed

lemma from_opts_dict_present:
  assumes "c_string (vmaf_feature_name_alias X name)" "list_all c_string_opt os"
    "list_all (\<lambda>e. c_string (snd e)) d"
  shows "vmaf_feature_name_from_opts_dict X name (Some os) (Some d) h
           = Inr (if fst (malloc h)
                  then Some (take (VMAF_FEATURE_NAME_DEFAULT_BUFFER_SIZE X - 1)
                               (vmaf_feature_name_alias X name @ opts_text os d) @ [NUL])
                  else None, snd (malloc h))"
proof -
  let ?n = "VMAF_FEATURE_NAME_DEFAULT_BUFFER_SIZE X"
  let ?a = "vmaf_feature_name_alias X name"
  have fill: "snprintfcat (padded ?n []) ?n ?a = Inr (padded ?n (take (?n - 1) ?a))"
    using snprintfcat_padded [of "[]" ?n ?a] by (simp add: c_string_Nil)
  have "append_opts ?n os d (padded ?n (take (?n - 1) ?a))
          = Inr (padded ?n (take (?n - 1) (take (?n - 1) ?a @ opts_text os d)))"
    using assms by (intro append_opts_padded) (simp_all add: c_string_take)
  then have loop: "append_opts ?n os d (padded ?n (take (?n - 1) ?a))
          = Inr (padded ?n (take (?n - 1) (?a @ opts_text os d)))"
    by (simp only: take_take_append)
  have ct: "c_string (?a @ opts_text os d)"
    using assms by (simp add: c_string_append c_string_opts_text)
  show ?thesis
    unfolding vmaf_feature_name_from_opts_dict_def
    by (simp only: Let_def option.case sum.case padded_Nil fill loop finish_padded [OF ct])
qed

lemma filter_key_distinct:
  assumes "distinct (map fst d)"
  shows "filter (\<lambda>e. fst e = k) d = (case map_of d k of None \<Rightarrow> [] | Some v \<Rightarrow> [(k, v)])"
  using assms
proof (induction d)
  case Nil
  then show ?case by simp
next
  case (Cons e d)
  obtain k' v' where e: "e = (k', v')" by (cases e)
  show ?case
  proof (cases "k' = k")
    case True
    with Cons.prems e have "k \<notin> fst ` set d" by auto
    then have "filter (\<lambda>e. fst e = k) d = []" by (auto simp: filter_empty_conv)
    with True e show ?thesis by simp
  next
    case False
    with Cons e show ?thesis by simp
  qed
qed

lemma entries_text_distinct:
  assumes "distinct (map fst d)" "opt_name opt = Some n"
  shows "entries_text opt n d = descriptor_text d opt"
  using assms
  by (simp add: entries_text_def descriptor_text_def filter_key_distinct split: option.splits)

lemma opts_text_distinct:
  assumes "distinct (map fst d)"
  shows "opts_text os d = concat (map (descriptor_text d) (named_opts os))"
proof -
  have "map (\<lambda>opt. entries_text opt (the (opt_name opt)) d) (named_opts os)
          = map (descriptor_text d) (named_opts os)"
  proof (rule map_cong [OF refl])
    fix opt assume "opt \<in> set (named_opts os)"
    then have "opt_name opt \<noteq> None" by (auto simp: named_opts_def dest: set_takeWhileD)
    then obtain n where "opt_name opt = Some n" by auto
    with assms show "entries_text opt (the (opt_name opt)) d = descriptor_text d opt"
      by (simp add: entries_text_distinct)
  qed
  then show ?thesis by (simp only: opts_text_def)
qed

lemma descriptor_text_same_pairs:
  assumes "distinct (map fst d1)" "distinct (map fst d2)" "set d1 = set d2"
  shows "descriptor_text d1 = descriptor_text d2"
proof -
  from assms have "map_of d1 = map_of d2" by (simp add: map_of_inject_set)
  then have "descriptor_text d1 opt = descriptor_text d2 opt" for opt
    by (simp only: descriptor_text_def)
  then show ?thesis by (rule ext)
qed

subsection \<open>The introspector\<close>

text \<open>
  The scan is the sequence of its insertions; what follows from that for the heap and
  for the name.
\<close>

lemma option_is_default_differs:
  "(option_is_default (Some opt) (Some v) = 0) = differs opt v"
  by (simp add: option_is_default_def differs_def EINVAL_def split: VmafOptionType.splits)

lemma c_string_value_text:
  assumes "\<forall>x. c_string (printf_g X x)"
  shows "c_string (value_text X opt v)"
  using assms
  by (simp add: value_text_def c_string_printf_d c_string_Nil c_string_Cons NUL_def
        split: VmafOptionType.splits)

lemma rendered_value:
  "\<exists>buf'. rendered X opt v (replicate (n + 1) NUL) n = Inr buf'
          \<and> cstr_of buf' = cstr_of (take (n - 1) (value_text X opt v))"
proof (cases "opt_type opt")
  case VMAF_OPT_TYPE_BOOL
  with snprintf_fresh [of n "printf_d (if as_bool v then 1 else 0)"] show ?thesis
    by (simp only: rendered_def value_text_def VmafOptionType.case printf_d_bool)
next
  case VMAF_OPT_TYPE_INT
  with snprintf_fresh [of n "printf_d (sint (as_int v))"] show ?thesis
    by (simp only: rendered_def value_text_def VmafOptionType.case)
next
  case VMAF_OPT_TYPE_DOUBLE
  with snprintf_fresh [of n "printf_g X (as_double v)"] show ?thesis
    by (simp only: rendered_def value_text_def VmafOptionType.case)
next
  case VMAF_OPT_TYPE_OTHER
  then show ?thesis
    by (simp add: rendered_def value_text_def cstr_of_def)
qed

lemma inserted_opts_Nil: "inserted_opts obj [] = []"
  by (simp add: inserted_opts_def named_opts_def)

lemma inserted_opts_Cons:
  "inserted_opts obj (opt # os) =
     (case opt_name opt of
        None \<Rightarrow> []
      | Some oname \<Rightarrow>
          if opt_flag_feature_param opt \<and> option_is_default (Some opt) (Some (obj (opt_offset opt))) = 0
          then opt # inserted_opts obj os
          else inserted_opts obj os)"
  by (simp add: inserted_opts_def named_opts_def non_default_def option_is_default_differs
        split: option.splits)

lemma inserted_opts_empty_iff:
  "(inserted_opts obj os = [])
     = (\<forall>opt \<in> set (named_opts os). opt_flag_feature_param opt \<longrightarrow> \<not> differs opt (obj (opt_offset opt)))"
  by (auto simp: inserted_opts_def filter_empty_conv non_default_def)

lemma collect_opts_insert_all:
  "collect_opts X obj os dict h = Inr (insert_all (map (inserted_pair X obj) (inserted_opts obj os)) dict h)"
proof (induction os arbitrary: dict h)
  case Nil
  show ?case by (simp add: inserted_opts_Nil)
next
  case (Cons opt os)
  show ?case
  proof (cases "opt_name opt")
    case None
    then show ?thesis by (simp add: inserted_opts_Cons)
  next
    case (Some oname)
    show ?thesis
    proof (cases "opt_flag_feature_param opt
                    \<and> option_is_default (Some opt) (Some (obj (opt_offset opt))) = 0")
      case False
      with Some Cons.IH show ?thesis by (auto simp: inserted_opts_Cons Let_def)
    next
      case True
      let ?n = "VMAF_FEATURE_NAME_DEFAULT_BUFFER_SIZE X"
      let ?v = "obj (opt_offset opt)"
      obtain buf' where b: "rendered X opt ?v (replicate (?n + 1) NUL) ?n = Inr buf'"
          "cstr_of buf' = cstr_of (take (?n - 1) (value_text X opt ?v))"
        using rendered_value by blast
      have p: "inserted_pair X obj opt = (oname, cstr_of buf')"
        using Some b(2) by (simp add: inserted_pair_def)
      obtain err dict' h' where s: "vmaf_dictionary_set dict oname (cstr_of buf') h = (err, dict', h')"
        by (cases "vmaf_dictionary_set dict oname (cstr_of buf') h")
      have l: "collect_opts X obj (opt # os) dict h
                 = (if err \<noteq> 0 then Inr (err, dict', h') else collect_opts X obj os dict' h')"
        using Some True b(1) s by (simp add: Let_def del: replicate_Suc)
      have r: "insert_all (map (inserted_pair X obj) (inserted_opts obj (opt # os))) dict h
                 = (if err \<noteq> 0 then (err, dict', h')
                    else insert_all (map (inserted_pair X obj) (inserted_opts obj os)) dict' h')"
        using Some True s by (simp add: inserted_opts_Cons p)
      show ?thesis
      proof (cases "err = 0")
        case True
        then show ?thesis by (simp only: l r Cons.IH simp_thms if_False)
      next
        case False
        then show ?thesis by (simp only: l r simp_thms if_True)
      qed
    qed
  qed
qed

lemma from_options_absent:
  assumes "name = None \<or> opts = None \<or> obj = None"
  shows "vmaf_feature_name_from_options X name opts obj h = Inr (None, h)"
  using assms by (auto simp: vmaf_feature_name_from_options_def split: option.splits)

lemma from_options_facts:
  "\<exists>res h'. vmaf_feature_name_from_options X name opts obj h = Inr (res, h')
      \<and> live_objects h' = live_objects h + (if res = None then 0 else 1)
      \<and> (res = None \<or> (no_failure h h' \<and> opts \<noteq> None \<and> obj \<noteq> None))"
proof (cases "name = None \<or> opts = None \<or> obj = None")
  case True
  then show ?thesis by (simp add: from_options_absent)
next
  case False
  then obtain nm os ob where a: "name = Some nm" "opts = Some os" "obj = Some ob" by auto
  let ?ps = "map (inserted_pair X ob) (inserted_opts ob os)"
  from insert_all_facts [of ?ps None h] obtain err d' h1 where
    i: "insert_all ?ps None h = (err, d', h1)"
       "live_objects h1 = live_objects h + (if d' \<noteq> None then 1 else 0)"
       "err \<noteq> 0 \<or> no_failure h h1"
    by auto
  show ?thesis
  proof (cases "err = 0")
    case False
    have "vmaf_feature_name_from_options X name opts obj h
            = Inr (None, snd (vmaf_dictionary_free d' h1))"
      using a i(1) False by (simp add: vmaf_feature_name_from_options_def collect_opts_insert_all)
    moreover have "live_objects (snd (vmaf_dictionary_free d' h1)) = live_objects h"
      using i(2) by (simp add: dictionary_free_live)
    ultimately show ?thesis by simp
  next
    case True
    from from_opts_dict_returns [of X nm "Some os" d' h1] obtain dst where
      c: "vmaf_feature_name_from_opts_dict X nm (Some os) d' h1
            = Inr (if fst (malloc h1) then Some dst else None, snd (malloc h1))"
      by blast
    let ?res = "if fst (malloc h1) then Some dst else None"
    let ?h' = "snd (vmaf_dictionary_free d' (snd (malloc h1)))"
    have r: "vmaf_feature_name_from_options X name opts obj h = Inr (?res, ?h')"
      using a i(1) True c by (simp add: vmaf_feature_name_from_options_def collect_opts_insert_all)
    have l: "live_objects ?h' = live_objects h + (if ?res = None then 0 else 1)"
      using malloc_cases [of h1] i(2) by (auto simp: dictionary_free_live)
    have n: "?res = None \<or> (no_failure h ?h' \<and> opts \<noteq> None \<and> obj \<noteq> None)"
    proof (cases "fst (malloc h1)")
      case False
      then show ?thesis by simp
    next
      case ok: True
      with malloc_cases [of h1] have "no_failure h1 (snd (malloc h1))" by simp
      moreover have "no_failure h h1" using i(3) True by simp
      moreover have "no_failure (snd (malloc h1)) ?h'"
        by (rule no_failure_same_outcomes) (rule dictionary_free_outcomes)
      ultimately have "no_failure h ?h'" by (blast intro: no_failure_trans)
      with a show ?thesis by simp
    qed
    from r l n show ?thesis by blast
  qed
qed

lemma from_options_aborted:
  assumes "False \<in> set (take (length (inserted_opts obj os)) (alloc_outcomes h))"
  shows "vmaf_feature_name_from_options X (Some name) (Some os) (Some obj) h
           = Inr (None, h\<lparr>alloc_outcomes := tl (dropWhile id (alloc_outcomes h))\<rparr>)"
proof -
  let ?ps = "map (inserted_pair X obj) (inserted_opts obj os)"
  from insert_all_facts [of ?ps None h] assms obtain err d' h1 where
    i: "insert_all ?ps None h = (err, d', h1)" "err \<noteq> 0"
       "live_objects h1 = live_objects h + (if d' \<noteq> None then 1 else 0)"
    by auto
  let ?h' = "snd (vmaf_dictionary_free d' h1)"
  have r: "vmaf_feature_name_from_options X (Some name) (Some os) (Some obj) h = Inr (None, ?h')"
    using i(1,2) by (simp add: vmaf_feature_name_from_options_def collect_opts_insert_all)
  have l: "live_objects ?h' = live_objects h"
    using i(3) by (simp add: dictionary_free_live)
  have "alloc_outcomes h1 = tl (dropWhile id (alloc_outcomes h))"
    using i(1,2) by (rule insert_all_abort)
  then have o: "alloc_outcomes ?h' = tl (dropWhile id (alloc_outcomes h))"
    by (simp add: dictionary_free_outcomes)
  from o l have "?h' = h\<lparr>alloc_outcomes := tl (dropWhile id (alloc_outcomes h))\<rparr>"
    by (rule heap_eqI)
  with r show ?thesis by simp
qed

lemma from_options_all_default:
  assumes "inserted_opts obj os = []" "c_string name"
  shows "vmaf_feature_name_from_options X (Some name) (Some os) (Some obj) h
           = Inr (if fst (malloc h)
                  then Some (take (VMAF_FEATURE_NAME_DEFAULT_BUFFER_SIZE X - 1) name @ [NUL])
                  else None, snd (malloc h))"
proof -
  have "collect_opts X obj os None h = Inr (0, None, h)"
    using assms(1) by (simp add: collect_opts_insert_all)
  moreover have "vmaf_feature_name_from_opts_dict X name (Some os) None h
           = Inr (if fst (malloc h)
                  then Some (take (VMAF_FEATURE_NAME_DEFAULT_BUFFER_SIZE X - 1) name @ [NUL])
                  else None, snd (malloc h))"
    using assms(2) by (intro from_opts_dict_absent) simp_all
  ultimately show ?thesis
    by (simp add: vmaf_feature_name_from_options_def vmaf_dictionary_free_def)
qed

lemma inserted_pair_c_string:
  assumes "\<forall>x. c_string (printf_g X x)"
  shows "inserted_pair X obj opt = extracted_pair X obj opt"
  using assms
  by (simp add: inserted_pair_def extracted_pair_def cstr_of_c_string c_string_take
        c_string_value_text)

lemma named_opts_have_names:
  assumes "opt \<in> set (named_opts os)"
  shows "\<exists>n. opt_name opt = Some n"
  using assms by (auto simp: named_opts_def dest: set_takeWhileD)

lemma distinct_extracted_keys:
  assumes "distinct (map opt_name (named_opts os))"
  shows "distinct (map fst (extracted X obj os))"
proof -
  have "inj_on opt_name (set (named_opts os))" "distinct (named_opts os)"
    using assms by (simp_all add: distinct_map)
  have "inj_on (\<lambda>opt. the (opt_name opt)) (set (named_opts os))"
  proof (rule inj_onI)
    fix x y
    assume x: "x \<in> set (named_opts os)" and y: "y \<in> set (named_opts os)"
      and e: "the (opt_name x) = the (opt_name y)"
    from x y obtain n m where "opt_name x = Some n" "opt_name y = Some m"
      using named_opts_have_names by blast
    with e have "opt_name x = opt_name y" by simp
    with \<open>inj_on opt_name (set (named_opts os))\<close> x y show "x = y" by (auto dest: inj_onD)
  qed
  with \<open>distinct (named_opts os)\<close>
  have "distinct (map (\<lambda>opt. the (opt_name opt)) (named_opts os))"
    by (simp add: distinct_map)
  then have "distinct (map (\<lambda>opt. the (opt_name opt)) (filter (non_default obj) (named_opts os)))"
    by (rule distinct_map_filter)
  then show ?thesis
    by (simp add: extracted_def inserted_opts_def extracted_pair_def comp_def)
qed

lemma descriptor_text_extracted:
  assumes "distinct (map opt_name (named_opts os))" "opt \<in> set (named_opts os)"
  shows "descriptor_text (extracted X obj os) opt = included_text X obj opt"
proof -
  obtain n where n: "opt_name opt = Some n" using assms(2) named_opts_have_names by blast
  have dk: "distinct (map fst (extracted X obj os))"
    using assms(1) by (rule distinct_extracted_keys)
  show ?thesis
  proof (cases "non_default obj opt")
    case True
    then have "extracted_pair X obj opt \<in> set (extracted X obj os)"
      using assms(2) by (simp add: extracted_def inserted_opts_def)
    then have "(n, take (VMAF_FEATURE_NAME_DEFAULT_BUFFER_SIZE X - 1)
                    (value_text X opt (obj (opt_offset opt)))) \<in> set (extracted X obj os)"
      using n by (simp add: extracted_pair_def)
    with dk have "map_of (extracted X obj os) n
        = Some (take (VMAF_FEATURE_NAME_DEFAULT_BUFFER_SIZE X - 1) (value_text X opt (obj (opt_offset opt))))"
      by simp
    with True n show ?thesis
      by (simp add: descriptor_text_def included_text_def non_default_def split: option.splits)
  next
    case False
    have "n \<notin> fst ` set (extracted X obj os)"
    proof
      assume "n \<in> fst ` set (extracted X obj os)"
      then obtain opt' where o: "opt' \<in> set (named_opts os)" "non_default obj opt'"
          "the (opt_name opt') = n"
        by (auto simp: extracted_def inserted_opts_def extracted_pair_def)
      then have "opt_name opt' = opt_name opt"
        using n named_opts_have_names [OF o(1)] by auto
      moreover have "inj_on opt_name (set (named_opts os))"
        using assms(1) by (simp add: distinct_map)
      ultimately have "opt' = opt" using o(1) assms(2) by (auto dest: inj_onD)
      with o(2) False show False by simp
    qed
    then have "map_of (extracted X obj os) n = None" by (simp add: map_of_eq_None_iff)
    with False n show ?thesis by (simp add: descriptor_text_def included_text_def)
  qed
qed

lemma opts_text_extracted:
  assumes "distinct (map opt_name (named_opts os))"
  shows "opts_text os (extracted X obj os) = concat (map (included_text X obj) (named_opts os))"
proof -
  have "map (descriptor_text (extracted X obj os)) (named_opts os)
          = map (included_text X obj) (named_opts os)"
    using assms by (intro map_cong [OF refl] descriptor_text_extracted)
  with opts_text_distinct [OF distinct_extracted_keys [OF assms], of os X obj]
  show ?thesis by (simp only:)
qed

lemma c_string_extracted_values:
  assumes "\<forall>x. c_string (printf_g X x)"
  shows "list_all (\<lambda>e. c_string (snd e)) (extracted X obj os)"
  using assms
  by (simp add: extracted_def extracted_pair_def list_all_iff c_string_take c_string_value_text)

lemma from_options_all_allocated:
  assumes "c_string name" "c_string (vmaf_feature_name_alias X name)" "list_all c_string_opt os"
    and "\<forall>x. c_string (printf_g X x)"
    and "distinct (map opt_name (named_opts os))"
    and "list_all id (alloc_outcomes h)"
  shows "\<exists>h'. vmaf_feature_name_from_options X (Some name) (Some os) (Some obj) h
           = Inr (Some (take (VMAF_FEATURE_NAME_DEFAULT_BUFFER_SIZE X - 1)
                          (if inserted_opts obj os = [] then name
                           else vmaf_feature_name_alias X name
                                  @ concat (map (included_text X obj) (named_opts os)))
                        @ [NUL]), h')"
proof (cases "inserted_opts obj os = []")
  case True
  from malloc_succeeds [OF assms(6)] from_options_all_default [OF True assms(1), of X h] True
  show ?thesis by simp
next
  case False
  let ?n = "VMAF_FEATURE_NAME_DEFAULT_BUFFER_SIZE X"
  let ?ps = "extracted X obj os"
  have ps: "map (inserted_pair X obj) (inserted_opts obj os) = ?ps"
    using assms(4) by (simp add: extracted_def inserted_pair_c_string)
  have ne: "?ps \<noteq> []" using False by (simp add: extracted_def)
  from insert_all_facts [of ?ps None h] obtain err d' h1 where
    i: "insert_all ?ps None h = (err, d', h1)"
       "(err \<noteq> 0) = (False \<in> set (take (length ?ps) (alloc_outcomes h)))"
       "err \<noteq> 0 \<or> no_failure h h1"
    by blast
  have "False \<notin> set (take (length ?ps) (alloc_outcomes h))"
    using assms(6) by (auto simp: list_all_iff dest: in_set_takeD)
  with i(2) have err: "err = 0" by simp
  with i(3) have "no_failure h h1" by simp
  then have "list_all id (alloc_outcomes h1)" using assms(6) by (rule no_failure_all_ok)
  then have ok: "fst (malloc h1)" by (rule malloc_succeeds)
  have "d' = put_all None ?ps" using i(1) err by (intro insert_all_dict) simp
  also have "\<dots> = Some ?ps"
    using put_all_None_distinct [OF distinct_extracted_keys [OF assms(5)], of X obj] ne by simp
  finally have d': "d' = Some ?ps" .
  have c: "collect_opts X obj os None h = Inr (0, Some ?ps, h1)"
    using i(1) err d' by (simp add: collect_opts_insert_all ps)
  have "vmaf_feature_name_from_opts_dict X name (Some os) (Some ?ps) h1
          = Inr (if fst (malloc h1)
                 then Some (take (?n - 1) (vmaf_feature_name_alias X name @ opts_text os ?ps) @ [NUL])
                 else None, snd (malloc h1))"
    using assms(2,3) c_string_extracted_values [OF assms(4)] by (rule from_opts_dict_present)
  then have f: "vmaf_feature_name_from_opts_dict X name (Some os) (Some ?ps) h1
          = Inr (Some (take (?n - 1) (vmaf_feature_name_alias X name
                         @ concat (map (included_text X obj) (named_opts os))) @ [NUL]),
                 snd (malloc h1))"
    using ok by (simp only: opts_text_extracted [OF assms(5)] if_True)
  have "vmaf_feature_name_from_options X (Some name) (Some os) (Some obj) h
          = Inr (Some (take (?n - 1) (vmaf_feature_name_alias X name
                         @ concat (map (included_text X obj) (named_opts os))) @ [NUL]),
                 snd (vmaf_dictionary_free (Some ?ps) (snd (malloc h1))))"
    unfolding vmaf_feature_name_from_options_def
    by (simp only: option.case c sum.case prod.case f simp_thms if_False)
  with False show ?thesis by (simp only: if_False) blast
qed

lemma from_options_inserted:
  assumes "insert_all (map (inserted_pair X obj) (inserted_opts obj os)) None h = (0, Some d, h1)"
    and "c_string (vmaf_feature_name_alias X name)" "list_all c_string_opt os"
    and "list_all (\<lambda>e. c_string (snd e)) d"
  shows "vmaf_feature_name_from_options X (Some name) (Some os) (Some obj) h
           = Inr (if fst (malloc h1)
                  then Some (take (VMAF_FEATURE_NAME_DEFAULT_BUFFER_SIZE X - 1)
                               (vmaf_feature_name_alias X name @ opts_text os d) @ [NUL])
                  else None,
                  snd (vmaf_dictionary_free (Some d) (snd (malloc h1))))"
proof -
  have c: "collect_opts X obj os None h = Inr (0, Some d, h1)"
    using assms(1) by (simp add: collect_opts_insert_all)
  note f = from_opts_dict_present [OF assms(2,3,4), of h1]
  show ?thesis
    unfolding vmaf_feature_name_from_options_def
    by (simp only: option.case c sum.case prod.case f simp_thms if_False)
qed

subsection \<open>The batch map builder\<close>

lemma provided_names_Nil: "provided_names [] = []"
  by (simp add: provided_names_def)

lemma provided_names_Cons:
  "provided_names (p # ps) = (case p of None \<Rightarrow> [] | Some n \<Rightarrow> n # provided_names ps)"
  by (simp add: provided_names_def split: option.splits)

lemma provided_loop_failed:
  assumes "provided_loop X ps opts obj dict h = Inr (True, dict, h')"
    and "live_objects h' = live_objects h"
  shows "\<exists>failed d' h'. provided_loop X ps opts obj dict h = Inr (failed, d', h')
     \<and> live_objects h' = live_objects h + (if dict = None \<and> d' \<noteq> None then 1 else 0)
     \<and> (dict = None \<or> d' \<noteq> None)
     \<and> (failed \<or> (no_failure h h'
                    \<and> dict_keys d' = dict_keys dict \<union> set (provided_names ps)
                    \<and> (provided_names ps = [] \<or> (opts \<noteq> None \<and> obj \<noteq> None))))"
proof -
  have "live_objects h' = live_objects h + (if dict = None \<and> dict \<noteq> None then 1 else 0)"
    using assms(2) by (cases dict) simp_all
  moreover have "dict = None \<or> dict \<noteq> None" by blast
  ultimately show ?thesis using assms(1) by blast
qed

lemma provided_loop_facts:
  "\<exists>failed d' h'. provided_loop X ps opts obj dict h = Inr (failed, d', h')
     \<and> live_objects h' = live_objects h + (if dict = None \<and> d' \<noteq> None then 1 else 0)
     \<and> (dict = None \<or> d' \<noteq> None)
     \<and> (failed \<or> (no_failure h h'
                    \<and> dict_keys d' = dict_keys dict \<union> set (provided_names ps)
                    \<and> (provided_names ps = [] \<or> (opts \<noteq> None \<and> obj \<noteq> None))))"
proof (induction ps arbitrary: dict h)
  case Nil
  show ?case by (cases dict) (auto simp: no_failure_refl provided_names_Nil)
next
  case (Cons p ps)
  show ?case
  proof (cases p)
    case None
    then show ?thesis by (cases dict) (auto simp: no_failure_refl provided_names_Cons)
  next
    case (Some feature_name)
    from from_options_facts [of X "Some feature_name" opts obj h] obtain res h1 where
      f: "vmaf_feature_name_from_options X (Some feature_name) opts obj h = Inr (res, h1)"
         "live_objects h1 = live_objects h + (if res = None then 0 else 1)"
         "res = None \<or> (no_failure h h1 \<and> opts \<noteq> None \<and> obj \<noteq> None)"
      by blast
    show ?thesis
    proof (cases res)
      case None
      have "provided_loop X (p # ps) opts obj dict h = Inr (True, dict, h1)"
        using Some f(1) None by simp
      moreover have "live_objects h1 = live_objects h" using f(2) None by simp
      ultimately show ?thesis by (rule provided_loop_failed)
    next
      case (Some fn)
      note res = this
      have l1: "live_objects h1 = live_objects h + 1" using f(2) res by simp
      have n1: "no_failure h h1" and args: "opts \<noteq> None" "obj \<noteq> None" using f(3) res by simp_all
      from vmaf_dictionary_set_cases [of dict feature_name "cstr_of fn" h1] show ?thesis
      proof (elim disjE exE conjE)
        fix h2
        assume s: "vmaf_dictionary_set dict feature_name (cstr_of fn) h1 = (- ENOMEM, dict, h2)"
          and l2: "live_objects h2 = live_objects h1"
        have "provided_loop X (p # ps) opts obj dict h = Inr (True, dict, free h2)"
          using \<open>p = Some feature_name\<close> f(1) res s by (simp add: ENOMEM_def)
        moreover have "live_objects (free h2) = live_objects h" using l1 l2 by (simp add: free_live)
        ultimately show ?thesis by (rule provided_loop_failed)
      next
        fix h2
        let ?d = "Some (case dict of None \<Rightarrow> [(feature_name, cstr_of fn)]
                          | Some d \<Rightarrow> dict_put feature_name (cstr_of fn) d)"
        assume s: "vmaf_dictionary_set dict feature_name (cstr_of fn) h1 = (0, ?d, h2)"
          and t: "list_all id (take 1 (alloc_outcomes h1))"
          and o: "alloc_outcomes h2 = drop 1 (alloc_outcomes h1)"
          and l2: "live_objects h2 = live_objects h1 + (if dict = None then 1 else 0)"
        from Cons.IH [of ?d "free h2"] obtain failed d' h' where
          r: "provided_loop X ps opts obj ?d (free h2) = Inr (failed, d', h')"
             "live_objects h' = live_objects (free h2)" "d' \<noteq> None"
             "failed \<or> (no_failure (free h2) h'
                        \<and> dict_keys d' = dict_keys ?d \<union> set (provided_names ps))"
          by auto
        have c1: "provided_loop X (p # ps) opts obj dict h = Inr (failed, d', h')"
          using \<open>p = Some feature_name\<close> f(1) res s r(1) by simp
        have c2: "live_objects h' = live_objects h + (if dict = None \<and> d' \<noteq> None then 1 else 0)"
          using r(2,3) l1 l2 by (simp add: free_live)
        have c3: "dict = None \<or> d' \<noteq> None" using r(3) by simp
        have n2: "no_failure h1 (free h2)"
          unfolding no_failure_def using t o by (auto simp: free_outcomes)
        have k: "dict_keys ?d = insert feature_name (dict_keys dict)"
          by (cases dict) (simp_all add: dict_keys_def dict_put_keys)
        have c4: "failed \<or> (no_failure h h'
                    \<and> dict_keys d' = dict_keys dict \<union> set (provided_names (p # ps))
                    \<and> (provided_names (p # ps) = [] \<or> (opts \<noteq> None \<and> obj \<noteq> None)))"
        proof (cases failed)
          case True
          then show ?thesis by simp
        next
          case False
          with r(4) have n3: "no_failure (free h2) h'"
            and k2: "dict_keys d' = dict_keys ?d \<union> set (provided_names ps)" by simp_all
          have "no_failure h h'" using n1 n2 n3 by (blast intro: no_failure_trans)
          moreover have "dict_keys d' = dict_keys dict \<union> set (provided_names (p # ps))"
            using k2 k \<open>p = Some feature_name\<close> by (simp add: provided_names_Cons)
          ultimately show ?thesis using args by simp
        qed
        from c1 c2 c3 c4 show ?thesis by blast
      qed
    qed
  qed
qed

subsection \<open>The concrete inputs\<close>

lemma malloc_empty_heap: "malloc empty_heap = (True, empty_heap\<lparr>live_objects := 1\<rparr>)"
  by (simp add: malloc_def next_outcome_def empty_heap_def)

lemma sample_buffer_size: "VMAF_FEATURE_NAME_DEFAULT_BUFFER_SIZE sample_extern = 256"
  by (simp add: sample_extern_def)

lemma sample_printf_g_c_string: "c_string (printf_g sample_extern x)"
  by (simp add: sample_extern_def c_string_def NUL_def)

lemma sample_doubles_differ:
  "\<not> double_eq 0x3FF0000000000000 0x3FF8000000000000"
  "\<not> double_eq 0x4000000000000000 0x3FF8000000000000"
  by (simp_all add: double_eq_def is_nan_def is_zero_def)

lemma sample_one_equal: "double_eq 0x3FF0000000000000 0x3FF0000000000000"
  by (simp add: double_eq_def is_nan_def is_zero_def)

lemma sample_inserted: "inserted_opts one_and_a_half [egl_opt, nvd_opt] = [egl_opt, nvd_opt]"
  by (simp add: inserted_opts_def named_opts_def non_default_def differs_def egl_opt_def
        nvd_opt_def no_view_def one_and_a_half_def sample_doubles_differ)

lemma sample_not_inserted: "inserted_opts one_point_zero [egl_opt] = []"
  by (simp add: inserted_opts_def named_opts_def non_default_def differs_def egl_opt_def
        no_view_def one_point_zero_def sample_one_equal)

lemma sample_non_default: "non_default one_and_a_half egl_opt"
  by (simp add: non_default_def differs_def egl_opt_def no_view_def one_and_a_half_def
        sample_doubles_differ)

lemma sample_included_text: "included_text sample_extern one_and_a_half egl_opt = ''_egl_1.5''"
  by (simp add: included_text_def sample_non_default)
    (simp add: value_text_def egl_opt_def one_and_a_half_def no_view_def sample_extern_def)

lemma sample_value_text:
  "value_text sample_extern egl_opt (one_and_a_half off) = ''1.5''"
  "value_text sample_extern egl_opt_again (one_then_one_and_a_half 8) = ''1.5''"
  by (simp_all add: value_text_def egl_opt_def egl_opt_again_def one_and_a_half_def
        one_then_one_and_a_half_def no_view_def sample_extern_def)

lemma sample_inserted_pair:
  "inserted_pair sample_extern one_and_a_half egl_opt = (''adm_enhn_gain_limit'', ''1.5'')"
  "inserted_pair sample_extern one_then_one_and_a_half egl_opt_again = (''adm_enhn_gain_limit'', ''1.5'')"
proof -
  have o: "opt_offset egl_opt = 0" "opt_offset egl_opt_again = 8"
    "opt_name egl_opt = Some ''adm_enhn_gain_limit''"
    "opt_name egl_opt_again = Some ''adm_enhn_gain_limit''"
    by (simp_all add: egl_opt_def egl_opt_again_def)
  show "inserted_pair sample_extern one_and_a_half egl_opt = (''adm_enhn_gain_limit'', ''1.5'')"
    by (simp add: inserted_pair_def o sample_value_text sample_buffer_size cstr_of_def NUL_def)
  show "inserted_pair sample_extern one_then_one_and_a_half egl_opt_again
          = (''adm_enhn_gain_limit'', ''1.5'')"
    by (simp add: inserted_pair_def o sample_value_text sample_buffer_size cstr_of_def NUL_def)
qed

lemma sample_insert_one:
  "insert_all [(''adm_enhn_gain_limit'', ''1.5'')] None empty_heap
     = (0, Some [(''adm_enhn_gain_limit'', ''1.5'')], empty_heap\<lparr>live_objects := 1\<rparr>)"
  by (simp add: vmaf_dictionary_set_def next_outcome_def empty_heap_def)

lemma sample_malloc_second:
  "malloc (empty_heap\<lparr>live_objects := 1\<rparr>) = (True, empty_heap\<lparr>live_objects := 2\<rparr>)"
  by (simp add: malloc_def next_outcome_def empty_heap_def)

lemma sample_free_dictionary:
  "snd (vmaf_dictionary_free (Some d) (empty_heap\<lparr>live_objects := 2\<rparr>))
     = empty_heap\<lparr>live_objects := 1\<rparr>"
  by (simp add: vmaf_dictionary_free_def free_def empty_heap_def)

lemma sample_duplicate_differs:
  "\<not> differs egl_opt (one_then_one_and_a_half (opt_offset egl_opt))"
  "differs egl_opt_again (one_then_one_and_a_half (opt_offset egl_opt_again))"
  by (simp_all add: differs_def egl_opt_def egl_opt_again_def one_then_one_and_a_half_def
        no_view_def sample_one_equal sample_doubles_differ)

lemma sample_duplicate_inserted:
  "inserted_opts one_then_one_and_a_half [egl_opt, egl_opt_again] = [egl_opt_again]"
proof -
  have n: "named_opts [egl_opt, egl_opt_again] = [egl_opt, egl_opt_again]"
    by (simp add: named_opts_def egl_opt_def egl_opt_again_def)
  have f: "opt_flag_feature_param egl_opt" "opt_flag_feature_param egl_opt_again"
    by (simp_all add: egl_opt_def egl_opt_again_def)
  show ?thesis
    by (simp add: inserted_opts_def n non_default_def f sample_duplicate_differs)
qed

lemma sample_c_string_opts: "c_string_opt egl_opt" "c_string_opt egl_opt_again"
  by (simp_all add: c_string_opt_def egl_opt_def egl_opt_again_def c_string_def NUL_def)

lemma sample_duplicate_text:
  "opts_text [egl_opt, egl_opt_again] [(''adm_enhn_gain_limit'', ''1.5'')] = ''_egl_1.5_egl_1.5''"
  by (simp add: opts_text_def named_opts_def entries_text_def egl_opt_def egl_opt_again_def)

lemma sample_single_text:
  "opts_text [egl_opt] [(''adm_enhn_gain_limit'', ''1.5'')] = ''_egl_1.5''"
  by (simp add: opts_text_def named_opts_def entries_text_def egl_opt_def)

lemma sample_single_inserted: "inserted_opts one_and_a_half [egl_opt] = [egl_opt]"
  by (simp add: inserted_opts_def named_opts_def sample_non_default) (simp add: egl_opt_def)

section \<open>The claims\<close>

text \<open>
  C1, as the code has it. When every naming-relevant parameter equals its declared
  default, the scan inserts nothing and the key/value set stays absent, so the composer
  takes its branch for an absent argument: the result is a newly allocated copy of the
  base name itself, not of its display alias, cut to
  \<open>VMAF_FEATURE_NAME_DEFAULT_BUFFER_SIZE - 1\<close> characters, and NULL when the allocation of the
  copy fails. No descriptor changes it.
\<close>

theorem all_default_identity:
  assumes "\<forall>opt \<in> set (named_opts os).
             opt_flag_feature_param opt \<longrightarrow> \<not> differs opt (obj (opt_offset opt))"
    and "c_string name"
  shows "vmaf_feature_name_from_options X (Some name) (Some os) (Some obj) h
           = Inr (if fst (malloc h)
                  then Some (take (VMAF_FEATURE_NAME_DEFAULT_BUFFER_SIZE X - 1) name @ [NUL])
                  else None, snd (malloc h))"
  using assms by (intro from_options_all_default) (simp_all add: inserted_opts_empty_iff)

theorem all_default_identity_witness:
  "list_all (\<lambda>opt. \<not> opt_flag_feature_param opt \<or> \<not> differs opt (one_point_zero (opt_offset opt)))
      (named_opts [egl_opt])
   \<and> c_string ''adm''
   \<and> vmaf_feature_name_from_options sample_extern (Some ''adm'') (Some [egl_opt]) (Some one_point_zero) empty_heap
       = Inr (Some (''adm'' @ [NUL]), empty_heap\<lparr>live_objects := 1\<rparr>)"
proof -
  have a1: "\<forall>opt \<in> set (named_opts [egl_opt]).
             opt_flag_feature_param opt \<longrightarrow> \<not> differs opt (one_point_zero (opt_offset opt))"
    using sample_not_inserted by (simp only: inserted_opts_empty_iff)
  have a2: "c_string ''adm''" by (simp add: c_string_def NUL_def)
  have "vmaf_feature_name_from_options sample_extern (Some ''adm'') (Some [egl_opt]) (Some one_point_zero) empty_heap
       = Inr (Some (take (256 - 1) ''adm'' @ [NUL]), empty_heap\<lparr>live_objects := 1\<rparr>)"
    using all_default_identity [OF a1 a2, of sample_extern empty_heap]
    by (simp only: malloc_empty_heap sample_buffer_size fst_conv snd_conv if_True)
  then have c: "vmaf_feature_name_from_options sample_extern (Some ''adm'') (Some [egl_opt]) (Some one_point_zero) empty_heap
       = Inr (Some (''adm'' @ [NUL]), empty_heap\<lparr>live_objects := 1\<rparr>)"
    by simp
  have a1': "list_all (\<lambda>opt. \<not> opt_flag_feature_param opt \<or> \<not> differs opt (one_point_zero (opt_offset opt)))
      (named_opts [egl_opt])"
    using a1 by (simp add: list_all_iff)
  from a1' a2 c show ?thesis by (intro conjI)
qed

text \<open>
  The claim as the spec states it, the display alias of the base name, fails for a base
  name whose alias differs from it: the name comes back, not the alias.
\<close>

theorem all_default_alias_counterexample:
  "inserted_opts one_point_zero [egl_opt] = []
   \<and> vmaf_feature_name_from_options sample_extern (Some ''VMAF_integer_feature_adm2_score'')
         (Some [egl_opt]) (Some one_point_zero) empty_heap
       = Inr (Some (''VMAF_integer_feature_adm2_score'' @ [NUL]), empty_heap\<lparr>live_objects := 1\<rparr>)
   \<and> vmaf_feature_name_alias sample_extern ''VMAF_integer_feature_adm2_score'' = ''integer_adm2''
   \<and> ''VMAF_integer_feature_adm2_score'' \<noteq> ''integer_adm2''"
proof -
  have a2: "c_string ''VMAF_integer_feature_adm2_score''" by (simp add: c_string_def NUL_def)
  have "vmaf_feature_name_from_options sample_extern (Some ''VMAF_integer_feature_adm2_score'')
         (Some [egl_opt]) (Some one_point_zero) empty_heap
       = Inr (Some (take (256 - 1) ''VMAF_integer_feature_adm2_score'' @ [NUL]),
              empty_heap\<lparr>live_objects := 1\<rparr>)"
    using from_options_all_default [OF sample_not_inserted a2, of sample_extern empty_heap]
    by (simp only: malloc_empty_heap sample_buffer_size fst_conv snd_conv if_True)
  then have c: "vmaf_feature_name_from_options sample_extern (Some ''VMAF_integer_feature_adm2_score'')
         (Some [egl_opt]) (Some one_point_zero) empty_heap
       = Inr (Some (''VMAF_integer_feature_adm2_score'' @ [NUL]), empty_heap\<lparr>live_objects := 1\<rparr>)"
    by simp
  have d: "vmaf_feature_name_alias sample_extern ''VMAF_integer_feature_adm2_score'' = ''integer_adm2''"
    by (simp add: sample_extern_def)
  have e: "''VMAF_integer_feature_adm2_score'' \<noteq> ''integer_adm2''" by simp
  from sample_not_inserted c d e show ?thesis by (intro conjI)
qed

text \<open>
  C2, as the code has it. The formatter hands \<^verbatim>\<open>snprintf\<close> the size \<open>buf_sz - 1\<close>,
  and \<^verbatim>\<open>snprintf\<close> keeps one more byte for the terminator. So for a buffer size of at
  least 1 and a composed string that with its terminator exceeds the buffer size, the
  returned string has exactly \<open>buf_sz - 2\<close> characters (none for a size of 1), NULs fill
  the rest of the first \<open>buf_sz\<close> bytes, and the bytes after them are untouched.
\<close>

theorem formatter_truncation:
  assumes "(k, a) \<in> set alias_list"
    and "t = vmaf_feature_name_alias X name @ ''_'' @ a @ ''_'' @ printf_g X val"
    and "c_string t"
    and "1 \<le> unat buf_sz" and "unat buf_sz \<le> length buf"
    and "unat buf_sz < length t + 1"
  shows "vmaf_feature_name X name (Some k) val buf buf_sz
           = Inr (Returned_buf,
                  take (unat buf_sz - 2) t @ replicate (min (unat buf_sz) 2) NUL @ drop (unat buf_sz) buf)
         \<and> cstr_of (take (unat buf_sz - 2) t @ replicate (min (unat buf_sz) 2) NUL @ drop (unat buf_sz) buf)
           = take (unat buf_sz - 2) t
         \<and> length (take (unat buf_sz - 2) t) = unat buf_sz - 2"
proof -
  let ?n = "unat buf_sz"
  have ka: "key_alias k = Some a" using assms(1) by (simp add: key_alias_Some_iff)
  have m: "?n - min (length t) (?n - 2) = min ?n 2" using assms(4,6) by simp
  have r: "vmaf_feature_name X name (Some k) val buf buf_sz
           = Inr (Returned_buf, take (?n - 2) t @ replicate (min ?n 2) NUL @ drop ?n buf)"
    using vmaf_feature_name_formatted [OF ka assms(4,5), of X name val]
    by (simp only: assms(2) [symmetric] m)
  obtain j where j: "min ?n 2 = Suc j" using assms(4) by (cases "min ?n 2") simp_all
  have "cstr_of (take (?n - 2) t @ NUL # (replicate j NUL @ drop ?n buf)) = take (?n - 2) t"
    using assms(3) by (intro cstr_of_append_NUL c_string_take)
  then have c: "cstr_of (take (?n - 2) t @ replicate (min ?n 2) NUL @ drop ?n buf) = take (?n - 2) t"
    by (simp add: j)
  have l: "length (take (?n - 2) t) = ?n - 2" using assms(6) by simp
  from r c l show ?thesis by (intro conjI)
qed

theorem formatter_truncation_witness:
  "(''motion_force_zero'', ''force'') \<in> set alias_list
   \<and> ''adm_force_1'' = vmaf_feature_name_alias sample_extern ''adm'' @ ''_'' @ ''force'' @ ''_''
                          @ printf_g sample_extern 0x3FF0000000000000
   \<and> c_string ''adm_force_1''
   \<and> 1 \<le> unat (8 :: size_t) \<and> unat (8 :: size_t) \<le> length ''xxxxxxxxxx''
   \<and> unat (8 :: size_t) < length ''adm_force_1'' + 1
   \<and> vmaf_feature_name sample_extern ''adm'' (Some ''motion_force_zero'') 0x3FF0000000000000
         ''xxxxxxxxxx'' 8
       = Inr (Returned_buf, ''adm_fo'' @ [NUL, NUL] @ ''xx'')
   \<and> cstr_of (''adm_fo'' @ [NUL, NUL] @ ''xx'') = ''adm_fo''
   \<and> length ''adm_fo'' = 8 - 2"
proof -
  have a1: "(''motion_force_zero'', ''force'') \<in> set alias_list" by (simp add: alias_list_def)
  have a2: "''adm_force_1'' = vmaf_feature_name_alias sample_extern ''adm'' @ ''_'' @ ''force'' @ ''_''
                          @ printf_g sample_extern 0x3FF0000000000000"
    by (simp add: sample_extern_def)
  have a3: "c_string ''adm_force_1''" by (simp add: c_string_def NUL_def)
  have a4: "1 \<le> unat (8 :: size_t)" by simp
  have a5: "unat (8 :: size_t) \<le> length ''xxxxxxxxxx''" by simp
  have a6: "unat (8 :: size_t) < length ''adm_force_1'' + 1" by simp
  have e: "take (unat (8 :: size_t) - 2) ''adm_force_1'' @ replicate (min (unat (8 :: size_t)) 2) NUL
             @ drop (unat (8 :: size_t)) ''xxxxxxxxxx'' = ''adm_fo'' @ [NUL, NUL] @ ''xx''"
    by (simp add: two_NULs)
  note t = formatter_truncation [OF a1 a2 a3 a4 a5 a6]
  have c1: "vmaf_feature_name sample_extern ''adm'' (Some ''motion_force_zero'') 0x3FF0000000000000
         ''xxxxxxxxxx'' 8 = Inr (Returned_buf, ''adm_fo'' @ [NUL, NUL] @ ''xx'')"
    using t [THEN conjunct1] by (simp only: e)
  have c2: "cstr_of (''adm_fo'' @ [NUL, NUL] @ ''xx'') = ''adm_fo''"
    using t [THEN conjunct2, THEN conjunct1] unfolding e by simp
  have c3: "length ''adm_fo'' = 8 - 2" by simp
  from a1 a2 a3 a4 a5 a6 c1 c2 c3 show ?thesis by (intro conjI)
qed

text \<open>
  The claim as the spec states it, exactly \<open>maxLen - 1\<close> characters and never a write
  past the buffer, fails twice: a buffer of 8 bytes receives 6 characters, not 7; and
  with a size of 0 the size handed to \<^verbatim>\<open>snprintf\<close> wraps around to the largest
  \<^verbatim>\<open>size_t\<close>, so \<^verbatim>\<open>snprintf\<close> as ISO C defines it writes the whole string, to a
  buffer of no bytes.
\<close>

theorem formatter_truncation_counterexample:
  "vmaf_feature_name sample_extern ''adm'' (Some ''motion_force_zero'') 0x3FF0000000000000
      ''xxxxxxxx'' 8
     = Inr (Returned_buf, ''adm_fo'' @ [NUL, NUL])
   \<and> cstr_of (''adm_fo'' @ [NUL, NUL]) = ''adm_fo''
   \<and> length ''adm_fo'' \<noteq> 8 - 1
   \<and> vmaf_feature_name sample_extern ''adm'' (Some ''motion_force_zero'') 0x3FF0000000000000 [] 0
     = Inl Out_of_bounds"
proof -
  have ka: "key_alias ''motion_force_zero'' = Some ''force''"
    by (simp add: key_alias_def alias_list_def)
  have a4: "1 \<le> unat (8 :: size_t)" by simp
  have a5: "unat (8 :: size_t) \<le> length ''xxxxxxxx''" by simp
  have c1: "vmaf_feature_name sample_extern ''adm'' (Some ''motion_force_zero'') 0x3FF0000000000000
      ''xxxxxxxx'' 8 = Inr (Returned_buf, ''adm_fo'' @ [NUL, NUL])"
    using vmaf_feature_name_formatted [OF ka a4 a5, of sample_extern "''adm''" "0x3FF0000000000000"]
    by (simp add: sample_extern_def two_NULs)
  have c2: "cstr_of (''adm_fo'' @ [NUL, NUL]) = ''adm_fo''"
    by (simp add: cstr_of_def NUL_def)
  have c3: "length ''adm_fo'' \<noteq> 8 - 1" by simp
  have "unat (0 - 1 :: size_t) \<noteq> 0" by (simp add: unat_eq_0)
  then have c4: "vmaf_feature_name sample_extern ''adm'' (Some ''motion_force_zero'') 0x3FF0000000000000 [] 0
     = Inl Out_of_bounds"
    by (simp add: vmaf_feature_name_def ka memset_def store_def snprintf_def)
  from c1 c2 c3 c4 show ?thesis by (intro conjI)
qed

text \<open>
  C3. For every base name, value and key that is absent or has no entry in the alias
  table, the single-key formatter \<^verbatim>\<open>vmaf_feature_name\<close> returns the base name it was
  given and leaves the output buffer as it was.
\<close>

theorem formatter_unrecognised_key:
  assumes "key = None \<or> (\<exists>k. key = Some k \<and> k \<notin> fst ` set alias_list)"
  shows "vmaf_feature_name X name key val buf buf_sz = Inr (Returned_name, buf)"
  using assms by (auto simp: vmaf_feature_name_def key_alias_None_iff [symmetric])

theorem formatter_unrecognised_key_witness:
  "(Some ''vif_kernelscale'' = None
      \<or> (\<exists>k. Some ''vif_kernelscale'' = Some k \<and> k \<notin> fst ` set alias_list))
   \<and> vmaf_feature_name sample_extern ''vif'' (Some ''vif_kernelscale'') 0x3FF8000000000000 ''xxxx'' 4
       = Inr (Returned_name, ''xxxx'')"
proof -
  have a: "Some ''vif_kernelscale'' = None
      \<or> (\<exists>k. Some ''vif_kernelscale'' = Some k \<and> k \<notin> fst ` set alias_list)"
    by (simp add: alias_list_def)
  from a formatter_unrecognised_key [OF a] show ?thesis by (intro conjI)
qed

text \<open>
  C4, as the code has it. For every key of the alias table the formatter returns the
  buffer, which then holds \<open>{alias of the base name}_{alias of the key}_{value}\<close>,
  provided the string has at most \<open>buf_sz - 2\<close> characters. The witness is the spec's
  example: \<open>adm\<close>, \<open>motion_force_zero\<close> and 1.0, which \<^verbatim>\<open>%g\<close> renders as \<open>1\<close>, give
  \<open>adm_force_1\<close>.
\<close>

theorem formatter_format:
  assumes "(k, a) \<in> set alias_list"
    and "t = vmaf_feature_name_alias X name @ ''_'' @ a @ ''_'' @ printf_g X val"
    and "c_string t"
    and "length t + 2 \<le> unat buf_sz" and "unat buf_sz \<le> length buf"
  shows "vmaf_feature_name X name (Some k) val buf buf_sz
           = Inr (Returned_buf, t @ replicate (unat buf_sz - length t) NUL @ drop (unat buf_sz) buf)
         \<and> cstr_of (t @ replicate (unat buf_sz - length t) NUL @ drop (unat buf_sz) buf) = t"
proof -
  let ?n = "unat buf_sz"
  have ka: "key_alias k = Some a" using assms(1) by (simp add: key_alias_Some_iff)
  have n1: "1 \<le> ?n" using assms(4) by simp
  have m: "min (length t) (?n - 2) = length t" "take (?n - 2) t = t" using assms(4) by simp_all
  have r: "vmaf_feature_name X name (Some k) val buf buf_sz
           = Inr (Returned_buf, t @ replicate (?n - length t) NUL @ drop ?n buf)"
    using vmaf_feature_name_formatted [OF ka n1 assms(5), of X name val]
    by (simp only: assms(2) [symmetric] m)
  obtain j where j: "?n - length t = Suc j" using assms(4) by (cases "?n - length t") simp_all
  have "cstr_of (t @ NUL # (replicate j NUL @ drop ?n buf)) = t"
    using assms(3) by (rule cstr_of_append_NUL)
  then have c: "cstr_of (t @ replicate (?n - length t) NUL @ drop ?n buf) = t"
    by (simp add: j)
  from r c show ?thesis by (intro conjI)
qed

theorem formatter_format_witness:
  "(''motion_force_zero'', ''force'') \<in> set alias_list
   \<and> ''adm_force_1'' = vmaf_feature_name_alias sample_extern ''adm'' @ ''_'' @ ''force'' @ ''_''
                          @ printf_g sample_extern 0x3FF0000000000000
   \<and> c_string ''adm_force_1''
   \<and> length ''adm_force_1'' + 2 \<le> unat (16 :: size_t)
   \<and> unat (16 :: size_t) \<le> length ''xxxxxxxxxxxxxxxx''
   \<and> vmaf_feature_name sample_extern ''adm'' (Some ''motion_force_zero'') 0x3FF0000000000000
         ''xxxxxxxxxxxxxxxx'' 16
       = Inr (Returned_buf, ''adm_force_1'' @ replicate 5 NUL)
   \<and> cstr_of (''adm_force_1'' @ replicate 5 NUL) = ''adm_force_1''"
proof -
  have a1: "(''motion_force_zero'', ''force'') \<in> set alias_list" by (simp add: alias_list_def)
  have a2: "''adm_force_1'' = vmaf_feature_name_alias sample_extern ''adm'' @ ''_'' @ ''force'' @ ''_''
                          @ printf_g sample_extern 0x3FF0000000000000"
    by (simp add: sample_extern_def)
  have a3: "c_string ''adm_force_1''" by (simp add: c_string_def NUL_def)
  have a4: "length ''adm_force_1'' + 2 \<le> unat (16 :: size_t)" by simp
  have a5: "unat (16 :: size_t) \<le> length ''xxxxxxxxxxxxxxxx''" by simp
  have e: "''adm_force_1'' @ replicate (unat (16 :: size_t) - length ''adm_force_1'') NUL
             @ drop (unat (16 :: size_t)) ''xxxxxxxxxxxxxxxx'' = ''adm_force_1'' @ replicate 5 NUL"
    by simp
  note t = formatter_format [OF a1 a2 a3 a4 a5]
  have c1: "vmaf_feature_name sample_extern ''adm'' (Some ''motion_force_zero'') 0x3FF0000000000000
         ''xxxxxxxxxxxxxxxx'' 16 = Inr (Returned_buf, ''adm_force_1'' @ replicate 5 NUL)"
    using t [THEN conjunct1] by (simp only: e)
  have c2: "cstr_of (''adm_force_1'' @ replicate 5 NUL) = ''adm_force_1''"
    using t [THEN conjunct2] by (simp only: e)
  from a1 a2 a3 a4 a5 c1 c2 show ?thesis by (intro conjI)
qed

text \<open>
  The claim as the spec states it, the whole string whenever it fits the buffer, fails
  at the boundary: \<open>adm_force_1\<close> and its terminator fill 12 bytes, and a buffer of 12
  bytes receives \<open>adm_force_\<close>.
\<close>

theorem formatter_format_counterexample:
  "vmaf_feature_name sample_extern ''adm'' (Some ''motion_force_zero'') 0x3FF0000000000000
      ''xxxxxxxxxxxx'' 12
     = Inr (Returned_buf, ''adm_force_'' @ [NUL, NUL])
   \<and> length (''adm_force_1'' @ [NUL]) \<le> unat (12 :: size_t)
   \<and> cstr_of (''adm_force_'' @ [NUL, NUL]) \<noteq> ''adm_force_1''"
proof -
  have ka: "key_alias ''motion_force_zero'' = Some ''force''"
    by (simp add: key_alias_def alias_list_def)
  have a4: "1 \<le> unat (12 :: size_t)" by simp
  have a5: "unat (12 :: size_t) \<le> length ''xxxxxxxxxxxx''" by simp
  have c1: "vmaf_feature_name sample_extern ''adm'' (Some ''motion_force_zero'') 0x3FF0000000000000
      ''xxxxxxxxxxxx'' 12 = Inr (Returned_buf, ''adm_force_'' @ [NUL, NUL])"
    using vmaf_feature_name_formatted [OF ka a4 a5, of sample_extern "''adm''" "0x3FF0000000000000"]
    by (simp add: sample_extern_def two_NULs)
  have c2: "length (''adm_force_1'' @ [NUL]) \<le> unat (12 :: size_t)" by simp
  have c3: "cstr_of (''adm_force_'' @ [NUL, NUL]) \<noteq> ''adm_force_1''"
    by (simp add: cstr_of_def NUL_def)
  from c1 c2 c3 show ?thesis by (intro conjI)
qed

text \<open>
  C5. For every descriptor array and every two key/value sets that hold the same pairs
  (each with unique keys, as the store keeps them) in different insertion orders, the
  composer \<^verbatim>\<open>vmaf_feature_name_from_opts_dict\<close> produces the same string, and the
  parameters appear in it in the order the descriptors are declared: the string is the
  one the spec's words give, cut to the buffer size less one.
\<close>

theorem composer_declaration_order:
  assumes "distinct (map fst d1)" "distinct (map fst d2)" "set d1 = set d2"
    and "c_string (vmaf_feature_name_alias X name)" "list_all c_string_opt os"
    and "list_all (\<lambda>e. c_string (snd e)) d1"
  shows "vmaf_feature_name_from_opts_dict X name (Some os) (Some d1) h
           = vmaf_feature_name_from_opts_dict X name (Some os) (Some d2) h
         \<and> vmaf_feature_name_from_opts_dict X name (Some os) (Some d1) h
           = Inr (if fst (malloc h)
                  then Some (take (VMAF_FEATURE_NAME_DEFAULT_BUFFER_SIZE X - 1)
                               (declaration_order_name X name os d1) @ [NUL])
                  else None, snd (malloc h))"
proof -
  have v2: "list_all (\<lambda>e. c_string (snd e)) d2"
    using assms(3,6) by (simp add: list_all_iff)
  have t: "opts_text os d1 = concat (map (descriptor_text d1) (named_opts os))"
       "opts_text os d2 = concat (map (descriptor_text d1) (named_opts os))"
    using assms(1-3) by (simp_all add: opts_text_distinct descriptor_text_same_pairs [of d1 d2])
  show ?thesis
    using assms(4-6) v2
    by (simp add: from_opts_dict_present t declaration_order_name_def del: take_append)
qed

theorem composer_declaration_order_witness:
  "distinct (map fst [(''adm_norm_view_dist'', ''2''), (''adm_enhn_gain_limit'', ''1.5'')])
   \<and> distinct (map fst [(''adm_enhn_gain_limit'', ''1.5''), (''adm_norm_view_dist'', ''2'')])
   \<and> set [(''adm_norm_view_dist'', ''2''), (''adm_enhn_gain_limit'', ''1.5'')]
       = set [(''adm_enhn_gain_limit'', ''1.5''), (''adm_norm_view_dist'', ''2'')]
   \<and> vmaf_feature_name_from_opts_dict sample_extern ''VMAF_integer_feature_adm2_score'' (Some [egl_opt, nvd_opt])
         (Some [(''adm_norm_view_dist'', ''2''), (''adm_enhn_gain_limit'', ''1.5'')]) empty_heap
       = vmaf_feature_name_from_opts_dict sample_extern ''VMAF_integer_feature_adm2_score'' (Some [egl_opt, nvd_opt])
         (Some [(''adm_enhn_gain_limit'', ''1.5''), (''adm_norm_view_dist'', ''2'')]) empty_heap
   \<and> vmaf_feature_name_from_opts_dict sample_extern ''VMAF_integer_feature_adm2_score'' (Some [egl_opt, nvd_opt])
         (Some [(''adm_norm_view_dist'', ''2''), (''adm_enhn_gain_limit'', ''1.5'')]) empty_heap
       = Inr (Some (''integer_adm2_egl_1.5_nvd_2'' @ [NUL]), empty_heap\<lparr>live_objects := 1\<rparr>)"
proof -
  let ?d1 = "[(''adm_norm_view_dist'', ''2''), (''adm_enhn_gain_limit'', ''1.5'')]"
  let ?d2 = "[(''adm_enhn_gain_limit'', ''1.5''), (''adm_norm_view_dist'', ''2'')]"
  have a1: "distinct (map fst ?d1)" and a2: "distinct (map fst ?d2)" by simp_all
  have a3: "set ?d1 = set ?d2" by (simp add: insert_commute)
  have a4: "c_string (vmaf_feature_name_alias sample_extern ''VMAF_integer_feature_adm2_score'')"
    by (simp add: sample_extern_def c_string_def NUL_def)
  have a5: "list_all c_string_opt [egl_opt, nvd_opt]"
    by (simp add: c_string_opt_def egl_opt_def nvd_opt_def c_string_def NUL_def)
  have a6: "list_all (\<lambda>e. c_string (snd e)) ?d1"
    by (simp add: c_string_def NUL_def)
  have n: "declaration_order_name sample_extern ''VMAF_integer_feature_adm2_score'' [egl_opt, nvd_opt] ?d1
             = ''integer_adm2_egl_1.5_nvd_2''"
    by (simp add: declaration_order_name_def descriptor_text_def named_opts_def
          sample_extern_def egl_opt_def nvd_opt_def)
  have m: "malloc empty_heap = (True, empty_heap\<lparr>live_objects := 1\<rparr>)"
    by (simp add: malloc_def next_outcome_def empty_heap_def)
  have b: "VMAF_FEATURE_NAME_DEFAULT_BUFFER_SIZE sample_extern = 256"
    by (simp add: sample_extern_def)
  note t = composer_declaration_order [OF a1 a2 a3 a4 a5 a6, of empty_heap]
  have c1: "vmaf_feature_name_from_opts_dict sample_extern ''VMAF_integer_feature_adm2_score'' (Some [egl_opt, nvd_opt])
              (Some ?d1) empty_heap
            = vmaf_feature_name_from_opts_dict sample_extern ''VMAF_integer_feature_adm2_score'' (Some [egl_opt, nvd_opt])
              (Some ?d2) empty_heap"
    using t by (rule conjunct1)
  have "vmaf_feature_name_from_opts_dict sample_extern ''VMAF_integer_feature_adm2_score'' (Some [egl_opt, nvd_opt])
          (Some ?d1) empty_heap
        = Inr (Some (take (256 - 1) ''integer_adm2_egl_1.5_nvd_2'' @ [NUL]), empty_heap\<lparr>live_objects := 1\<rparr>)"
    using t [THEN conjunct2] by (simp only: n m b fst_conv snd_conv if_True)
  then have c2: "vmaf_feature_name_from_opts_dict sample_extern ''VMAF_integer_feature_adm2_score''
          (Some [egl_opt, nvd_opt]) (Some ?d1) empty_heap
        = Inr (Some (''integer_adm2_egl_1.5_nvd_2'' @ [NUL]), empty_heap\<lparr>live_objects := 1\<rparr>)"
    by simp
  from a1 a2 a3 c1 c2 show ?thesis by (intro conjI)
qed

text \<open>
  C6, as the code has it. For every naming-relevant descriptor the introspector compares
  the field of the configuration with the declared default by the exact equality of
  the descriptor's kind (\<open>differs\<close>). For a table whose descriptors have distinct
  names, and when no allocation fails, the name \<^verbatim>\<open>vmaf_feature_name_from_options\<close>
  returns is the display alias of the base name followed, in declaration order, by
  \<open>_{aliasOrName}_{value}\<close> for exactly the descriptors whose field differs, all of it
  cut to \<open>VMAF_FEATURE_NAME_DEFAULT_BUFFER_SIZE - 1\<close> characters; a parameter that equals its
  default contributes nothing, and when none differs the name is the base name. The
  witness is the spec's example: \<open>adm_enhn_gain_limit\<close> with alias \<open>egl\<close>, default 1.0
  and live value 1.5 contributes \<open>_egl_1.5\<close>.
\<close>

theorem default_suppression:
  assumes "c_string name" "c_string (vmaf_feature_name_alias X name)" "list_all c_string_opt os"
    and "\<forall>x. c_string (printf_g X x)"
    and "distinct (map opt_name (named_opts os))"
    and "list_all id (alloc_outcomes h)"
  shows "\<exists>h'. vmaf_feature_name_from_options X (Some name) (Some os) (Some obj) h
           = Inr (Some (take (VMAF_FEATURE_NAME_DEFAULT_BUFFER_SIZE X - 1)
                          (if \<forall>opt \<in> set (named_opts os). \<not> non_default obj opt then name
                           else vmaf_feature_name_alias X name
                                  @ concat (map (included_text X obj) (named_opts os)))
                        @ [NUL]), h')"
proof -
  have "(inserted_opts obj os = []) = (\<forall>opt \<in> set (named_opts os). \<not> non_default obj opt)"
    by (simp add: inserted_opts_def filter_empty_conv)
  with from_options_all_allocated [OF assms, of obj] show ?thesis by (simp only:)
qed

theorem default_suppression_witness:
  "c_string ''VMAF_integer_feature_adm2_score''
   \<and> c_string (vmaf_feature_name_alias sample_extern ''VMAF_integer_feature_adm2_score'')
   \<and> list_all c_string_opt [egl_opt]
   \<and> (\<forall>x. c_string (printf_g sample_extern x))
   \<and> distinct (map opt_name (named_opts [egl_opt]))
   \<and> list_all id (alloc_outcomes empty_heap)
   \<and> (\<exists>h'. vmaf_feature_name_from_options sample_extern (Some ''VMAF_integer_feature_adm2_score'')
              (Some [egl_opt]) (Some one_and_a_half) empty_heap
            = Inr (Some (''integer_adm2_egl_1.5'' @ [NUL]), h'))"
proof -
  have a1: "c_string ''VMAF_integer_feature_adm2_score''" by (simp add: c_string_def NUL_def)
  have a2: "c_string (vmaf_feature_name_alias sample_extern ''VMAF_integer_feature_adm2_score'')"
    by (simp add: sample_extern_def c_string_def NUL_def)
  have a3: "list_all c_string_opt [egl_opt]"
    by (simp add: c_string_opt_def egl_opt_def c_string_def NUL_def)
  have a4: "\<forall>x. c_string (printf_g sample_extern x)" by (simp add: sample_printf_g_c_string)
  have n: "named_opts [egl_opt] = [egl_opt]" by (simp add: named_opts_def egl_opt_def)
  have a5: "distinct (map opt_name (named_opts [egl_opt]))" by (simp add: n)
  have a6: "list_all id (alloc_outcomes empty_heap)" by (simp add: empty_heap_def)
  have c: "\<not> (\<forall>opt \<in> set (named_opts [egl_opt]). \<not> non_default one_and_a_half opt)"
    by (simp add: n sample_non_default)
  have t: "take (VMAF_FEATURE_NAME_DEFAULT_BUFFER_SIZE sample_extern - 1)
             (vmaf_feature_name_alias sample_extern ''VMAF_integer_feature_adm2_score''
                @ concat (map (included_text sample_extern one_and_a_half) (named_opts [egl_opt])))
           = ''integer_adm2_egl_1.5''"
    by (simp add: n sample_included_text) (simp add: sample_extern_def)
  have "\<exists>h'. vmaf_feature_name_from_options sample_extern (Some ''VMAF_integer_feature_adm2_score'')
              (Some [egl_opt]) (Some one_and_a_half) empty_heap
            = Inr (Some (''integer_adm2_egl_1.5'' @ [NUL]), h')"
    using default_suppression [OF a1 a2 a3 a4 a5 a6, of one_and_a_half]
    by (simp only: c if_False t)
  with a1 a2 a3 a4 a5 a6 show ?thesis by (intro conjI)
qed

text \<open>
  The claim as the spec states it, for every descriptor and every name, fails twice.
  The composer looks a descriptor up by its name: of two descriptors of one name, the
  first at its default and the second not, both are printed, with the value of the
  second. And the name is cut with the buffer: after a base name of 250 characters
  the parameter that differs contributes \<open>_egl_\<close> only, its value is lost.
\<close>

theorem default_suppression_counterexample:
  "\<not> differs egl_opt (one_then_one_and_a_half (opt_offset egl_opt))
   \<and> vmaf_feature_name_from_options sample_extern (Some ''adm'') (Some [egl_opt, egl_opt_again])
         (Some one_then_one_and_a_half) empty_heap
       = Inr (Some (''adm_egl_1.5_egl_1.5'' @ [NUL]), empty_heap\<lparr>live_objects := 1\<rparr>)
   \<and> differs egl_opt (one_and_a_half (opt_offset egl_opt))
   \<and> vmaf_feature_name_from_options sample_extern (Some (replicate 250 CHR ''a'')) (Some [egl_opt])
         (Some one_and_a_half) empty_heap
       = Inr (Some (replicate 250 CHR ''a'' @ ''_egl_'' @ [NUL]), empty_heap\<lparr>live_objects := 1\<rparr>)"
proof -
  let ?d = "[(''adm_enhn_gain_limit'', ''1.5'')]"
  have v: "list_all (\<lambda>e. c_string (snd e)) ?d" by (simp add: c_string_def NUL_def)
  have "length (replicate 250 CHR ''a'') \<noteq> length ''VMAF_integer_feature_adm2_score''" by simp
  then have ne: "replicate 250 CHR ''a'' \<noteq> ''VMAF_integer_feature_adm2_score''" by metis
  have a: "vmaf_feature_name_alias sample_extern ''adm'' = ''adm''"
    "vmaf_feature_name_alias sample_extern (replicate 250 CHR ''a'') = replicate 250 CHR ''a''"
    by (simp_all add: sample_extern_def ne)
  have ca: "c_string (vmaf_feature_name_alias sample_extern ''adm'')"
    "c_string (vmaf_feature_name_alias sample_extern (replicate 250 CHR ''a''))"
    by (simp_all add: a c_string_def NUL_def)
  have i1: "insert_all (map (inserted_pair sample_extern one_then_one_and_a_half)
                (inserted_opts one_then_one_and_a_half [egl_opt, egl_opt_again])) None empty_heap
              = (0, Some ?d, empty_heap\<lparr>live_objects := 1\<rparr>)"
    by (simp only: sample_duplicate_inserted list.map sample_inserted_pair sample_insert_one)
  have o1: "list_all c_string_opt [egl_opt, egl_opt_again]" by (simp add: sample_c_string_opts)
  have "vmaf_feature_name_from_options sample_extern (Some ''adm'') (Some [egl_opt, egl_opt_again])
         (Some one_then_one_and_a_half) empty_heap
       = Inr (Some (take (256 - 1) (''adm'' @ ''_egl_1.5_egl_1.5'') @ [NUL]),
              empty_heap\<lparr>live_objects := 1\<rparr>)"
    using from_options_inserted [OF i1 ca(1) o1 v]
    by (simp only: sample_malloc_second sample_free_dictionary sample_buffer_size a
          sample_duplicate_text fst_conv snd_conv if_True)
  then have c2: "vmaf_feature_name_from_options sample_extern (Some ''adm'')
         (Some [egl_opt, egl_opt_again]) (Some one_then_one_and_a_half) empty_heap
       = Inr (Some (''adm_egl_1.5_egl_1.5'' @ [NUL]), empty_heap\<lparr>live_objects := 1\<rparr>)"
    by simp
  have i2: "insert_all (map (inserted_pair sample_extern one_and_a_half)
                (inserted_opts one_and_a_half [egl_opt])) None empty_heap
              = (0, Some ?d, empty_heap\<lparr>live_objects := 1\<rparr>)"
    by (simp only: sample_single_inserted list.map sample_inserted_pair sample_insert_one)
  have o2: "list_all c_string_opt [egl_opt]" by (simp add: sample_c_string_opts)
  have "vmaf_feature_name_from_options sample_extern (Some (replicate 250 CHR ''a'')) (Some [egl_opt])
         (Some one_and_a_half) empty_heap
       = Inr (Some (take (256 - 1) (replicate 250 CHR ''a'' @ ''_egl_1.5'') @ [NUL]),
              empty_heap\<lparr>live_objects := 1\<rparr>)"
    using from_options_inserted [OF i2 ca(2) o2 v]
    by (simp only: sample_malloc_second sample_free_dictionary sample_buffer_size a
          sample_single_text fst_conv snd_conv if_True)
  then have c4: "vmaf_feature_name_from_options sample_extern (Some (replicate 250 CHR ''a''))
         (Some [egl_opt]) (Some one_and_a_half) empty_heap
       = Inr (Some (replicate 250 CHR ''a'' @ ''_egl_'' @ [NUL]), empty_heap\<lparr>live_objects := 1\<rparr>)"
    by simp
  have c3: "differs egl_opt (one_and_a_half (opt_offset egl_opt))"
    using sample_non_default by (simp add: non_default_def)
  from sample_duplicate_differs(1) c2 c3 c4 show ?thesis by (intro conjI)
qed

text \<open>
  C7, as the code has it. If the descriptor array or the key/value set is absent, the
  composer reports no error for that: it returns a newly allocated copy of the base
  name, cut to its first \<open>VMAF_FEATURE_NAME_DEFAULT_BUFFER_SIZE - 1\<close> characters (so the base
  name itself when it is shorter than the buffer size), and NULL only when the
  allocation of the copy fails.
\<close>

theorem composer_absent_argument:
  assumes "opts = None \<or> opts_dict = None" and "c_string name"
  shows "vmaf_feature_name_from_opts_dict X name opts opts_dict h
           = Inr (if fst (malloc h)
                  then Some (take (VMAF_FEATURE_NAME_DEFAULT_BUFFER_SIZE X - 1) name @ [NUL])
                  else None, snd (malloc h))"
  using assms by (simp add: from_opts_dict_absent)

theorem composer_absent_argument_witness:
  "(None = (None :: VmafOption list option) \<or> Some [(''k'', ''v'')] = None)
   \<and> c_string ''VMAF_integer_feature_adm2_score''
   \<and> vmaf_feature_name_from_opts_dict sample_extern ''VMAF_integer_feature_adm2_score'' None (Some [(''k'', ''v'')]) empty_heap
       = Inr (Some (''VMAF_integer_feature_adm2_score'' @ [NUL]), empty_heap\<lparr>live_objects := 1\<rparr>)"
proof -
  have a1: "None = (None :: VmafOption list option) \<or> Some [(''k'', ''v'')] = None" by simp
  have a2: "c_string ''VMAF_integer_feature_adm2_score''" by (simp add: c_string_def NUL_def)
  have m: "malloc empty_heap = (True, empty_heap\<lparr>live_objects := 1\<rparr>)"
    by (simp add: malloc_def next_outcome_def empty_heap_def)
  have b: "VMAF_FEATURE_NAME_DEFAULT_BUFFER_SIZE sample_extern = 256"
    by (simp add: sample_extern_def)
  have "vmaf_feature_name_from_opts_dict sample_extern ''VMAF_integer_feature_adm2_score'' None (Some [(''k'', ''v'')]) empty_heap
       = Inr (Some (take (256 - 1) ''VMAF_integer_feature_adm2_score'' @ [NUL]), empty_heap\<lparr>live_objects := 1\<rparr>)"
    using composer_absent_argument [OF a1 a2, of sample_extern empty_heap]
    by (simp only: m b fst_conv snd_conv if_True)
  then have "vmaf_feature_name_from_opts_dict sample_extern ''VMAF_integer_feature_adm2_score'' None (Some [(''k'', ''v'')]) empty_heap
       = Inr (Some (''VMAF_integer_feature_adm2_score'' @ [NUL]), empty_heap\<lparr>live_objects := 1\<rparr>)"
    by simp
  with a1 a2 show ?thesis by (intro conjI)
qed

text \<open>
  The claim as the spec states it, the base name verbatim, fails for a long name: with a
  buffer size of 256, a base name of 256 characters comes back with 255.
\<close>

theorem composer_long_name_counterexample:
  "vmaf_feature_name_from_opts_dict sample_extern (replicate 256 CHR ''a'') None None empty_heap
     = Inr (Some (replicate 255 CHR ''a'' @ [NUL]), empty_heap\<lparr>live_objects := 1\<rparr>)
   \<and> replicate 255 CHR ''a'' \<noteq> replicate 256 CHR ''a''"
proof -
  have a2: "c_string (replicate 256 CHR ''a'')" by (simp add: c_string_def NUL_def)
  have m: "malloc empty_heap = (True, empty_heap\<lparr>live_objects := 1\<rparr>)"
    by (simp add: malloc_def next_outcome_def empty_heap_def)
  have b: "VMAF_FEATURE_NAME_DEFAULT_BUFFER_SIZE sample_extern = 256"
    by (simp add: sample_extern_def)
  have "vmaf_feature_name_from_opts_dict sample_extern (replicate 256 CHR ''a'') None None empty_heap
       = Inr (Some (take (256 - 1) (replicate 256 CHR ''a'') @ [NUL]), empty_heap\<lparr>live_objects := 1\<rparr>)"
    using from_opts_dict_absent [OF a2, of None None sample_extern empty_heap]
    by (simp only: m b fst_conv snd_conv if_True simp_thms)
  then have c: "vmaf_feature_name_from_opts_dict sample_extern (replicate 256 CHR ''a'') None None empty_heap
       = Inr (Some (replicate 255 CHR ''a'' @ [NUL]), empty_heap\<lparr>live_objects := 1\<rparr>)"
    by simp
  have "length (replicate 255 CHR ''a'') \<noteq> length (replicate 256 CHR ''a'')" by simp
  then have "replicate 255 CHR ''a'' \<noteq> replicate 256 CHR ''a''" by metis
  with c show ?thesis by (intro conjI)
qed

text \<open>
  C8. If an insertion into the key/value set fails during the scan of
  \<^verbatim>\<open>vmaf_feature_name_from_options\<close>, that is, if one of the allocation outcomes met by
  the insertions the scan would make is a failure, then the scan stops there: the
  outcomes after the first failure are left unused, so nothing is composed; the
  dictionary built so far is freed, so the heap holds as many objects as before; and
  the function returns NULL.
\<close>

theorem introspector_insertion_failure:
  assumes "False \<in> set (take (length (inserted_opts obj os)) (alloc_outcomes h))"
  shows "vmaf_feature_name_from_options X (Some name) (Some os) (Some obj) h
           = Inr (None, h\<lparr>alloc_outcomes := tl (dropWhile id (alloc_outcomes h))\<rparr>)"
  using assms by (rule from_options_aborted)

theorem introspector_insertion_failure_witness:
  "False \<in> set (take (length (inserted_opts one_and_a_half [egl_opt, nvd_opt])) [True, False, True])
   \<and> vmaf_feature_name_from_options sample_extern (Some ''adm'') (Some [egl_opt, nvd_opt])
         (Some one_and_a_half) \<lparr>alloc_outcomes = [True, False, True], live_objects = 0\<rparr>
       = Inr (None, \<lparr>alloc_outcomes = [True], live_objects = 0\<rparr>)"
proof -
  let ?h = "\<lparr>alloc_outcomes = [True, False, True], live_objects = 0\<rparr>"
  have a: "False \<in> set (take (length (inserted_opts one_and_a_half [egl_opt, nvd_opt])) (alloc_outcomes ?h))"
    by (simp add: sample_inserted)
  have "vmaf_feature_name_from_options sample_extern (Some ''adm'') (Some [egl_opt, nvd_opt])
         (Some one_and_a_half) ?h
       = Inr (None, ?h\<lparr>alloc_outcomes := tl (dropWhile id (alloc_outcomes ?h))\<rparr>)"
    using a by (rule introspector_insertion_failure)
  then have "vmaf_feature_name_from_options sample_extern (Some ''adm'') (Some [egl_opt, nvd_opt])
         (Some one_and_a_half) ?h = Inr (None, \<lparr>alloc_outcomes = [True], live_objects = 0\<rparr>)"
    by simp
  with a show ?thesis by simp
qed

text \<open>
  C9. The batch map builder \<^verbatim>\<open>vmaf_feature_name_dict_from_provided_features\<close> is
  all-or-nothing. For every list of metric names it ends in one of two ways. Either it
  reports the error, the code \<^verbatim>\<open>-EINVAL\<close> returned in the place of the pointer, and then
  the map built so far has been freed: the heap holds as many objects as before the
  call. Or it returns a map, and then no step failed (every allocation outcome used was
  a success, and the descriptors and the configuration were present unless the list is
  empty) and the map is complete: its keys are exactly the names of the list.
\<close>

theorem batch_all_or_nothing:
  "\<exists>r h'. vmaf_feature_name_dict_from_provided_features X ps opts obj h = Inr (r, h')
     \<and> ((r = Returned_code (- EINVAL) \<and> live_objects h' = live_objects h)
        \<or> (\<exists>d. r = Returned_dict d
              \<and> dict_keys d = set (provided_names ps)
              \<and> live_objects h' = live_objects h + (if d = None then 0 else 1)
              \<and> no_failure h h'
              \<and> (provided_names ps = [] \<or> (opts \<noteq> None \<and> obj \<noteq> None))))"
proof -
  from provided_loop_facts [of X ps opts obj None h] obtain failed d' h1 where
    r: "provided_loop X ps opts obj None h = Inr (failed, d', h1)"
       "live_objects h1 = live_objects h + (if d' \<noteq> None then 1 else 0)"
       "failed \<or> (no_failure h h1
                  \<and> dict_keys d' = set (provided_names ps)
                  \<and> (provided_names ps = [] \<or> (opts \<noteq> None \<and> obj \<noteq> None)))"
    by (auto simp: dict_keys_def)
  show ?thesis
  proof (cases failed)
    case True
    let ?h' = "snd (vmaf_dictionary_free d' h1)"
    have "vmaf_feature_name_dict_from_provided_features X ps opts obj h
            = Inr (Returned_code (- EINVAL), ?h')"
      using r(1) True by (simp add: vmaf_feature_name_dict_from_provided_features_def)
    moreover have "live_objects ?h' = live_objects h"
      using r(2) by (simp add: dictionary_free_live)
    ultimately show ?thesis by blast
  next
    case False
    have "vmaf_feature_name_dict_from_provided_features X ps opts obj h
            = Inr (Returned_dict d', h1)"
      using r(1) False by (simp add: vmaf_feature_name_dict_from_provided_features_def)
    moreover have "live_objects h1 = live_objects h + (if d' = None then 0 else 1)"
      using r(2) by simp
    ultimately show ?thesis using r(3) False by blast
  qed
qed

text \<open>
  Two runs on the names \<open>adm\<close> and \<open>motion\<close> with every parameter at its default. In
  the first the third allocation fails, after \<open>adm\<close> has been inserted: the result is
  the error code and nothing stays allocated. In the second nothing fails.
\<close>

lemma batch_failure_example:
  "vmaf_feature_name_dict_from_provided_features sample_extern [Some ''adm'', Some ''motion'']
      (Some [egl_opt]) (Some one_point_zero) \<lparr>alloc_outcomes = [True, True, False], live_objects = 0\<rparr>
     = Inr (Returned_code (- 22), \<lparr>alloc_outcomes = [], live_objects = 0\<rparr>)"
proof -
  have c: "c_string ''adm''" "c_string ''motion''" by (simp_all add: c_string_def NUL_def)
  note f = from_options_all_default [OF sample_not_inserted, of _ sample_extern]
  show ?thesis
    by (simp add: vmaf_feature_name_dict_from_provided_features_def f c malloc_def
          next_outcome_def vmaf_dictionary_set_def vmaf_dictionary_free_def free_def EINVAL_def)
qed

lemma batch_success_example:
  "vmaf_feature_name_dict_from_provided_features sample_extern [Some ''adm'', Some ''motion'']
      (Some [egl_opt]) (Some one_point_zero) empty_heap
     = Inr (Returned_dict (Some [(''adm'', ''adm''), (''motion'', ''motion'')]),
            \<lparr>alloc_outcomes = [], live_objects = 1\<rparr>)"
proof -
  have c: "c_string ''adm''" "c_string ''motion''" by (simp_all add: c_string_def NUL_def)
  note f = from_options_all_default [OF sample_not_inserted, of _ sample_extern]
  show ?thesis
    by (simp add: vmaf_feature_name_dict_from_provided_features_def f c malloc_def
          next_outcome_def vmaf_dictionary_set_def vmaf_dictionary_free_def free_def EINVAL_def
          empty_heap_def sample_buffer_size cstr_of_def NUL_def)
qed

text \<open>
  C10. The extract-and-compose operation \<^verbatim>\<open>vmaf_feature_name_from_options\<close> needs a
  base name: when the name is absent it returns NULL, whatever the descriptor array and
  the configuration instance are, so without reading either, and the heap is as before.
\<close>

theorem introspector_absent_name:
  "vmaf_feature_name_from_options X None opts obj h = Inr (None, h)"
  by (simp add: vmaf_feature_name_from_options_def)

end
